theory Spec2Isabelle
  imports Main
begin

section \<open>Python values, strings and exceptions\<close>

text \<open>
  The exceptions that the modelled code can meet. All of them are subclasses of
  Python's \<open>Exception\<close>, so every \<open>except Exception\<close> handler of the source
  catches each of them; \<open>PlaywrightTimeoutError\<close> is the only one a handler names.
\<close>

datatype exn =
    ValueError
  | KeyError
  | TypeError
  | IndexError
  | HTTPError
  | RequestException
  | JSONDecodeError
  | UnicodeDecodeError
  | AttributeError
  | PlaywrightTimeoutError
  | OtherError string

text \<open>
  A Python value as the indexer handles it (\<open>Dict[str, Any]\<close>, the result of
  \<open>response.json()\<close>): the JSON types, tuples, and \<open>PyObj\<close> for an object of any
  other type (bytes, a set, a datetime, ...), which \<open>json.dumps\<close> refuses.
  A dict is the list of its items, looked up with \<open>map_of\<close>; numbers are integers
  (the code applies only truthiness, \<open>in\<close> and subscripts to them, where a float
  behaves as an int does).
\<close>

datatype pyval =
    PyNone
  | PyBool bool
  | PyInt int
  | PyStr string
  | PyList "pyval list"
  | PyTuple "pyval list"
  | PyDict "(string \<times> pyval) list"
  | PyObj string

type_synonym pydict = "(string \<times> pyval) list"

text \<open>\<open>s.startswith(p)\<close>\<close>

fun starts_with :: "'a list \<Rightarrow> 'a list \<Rightarrow> bool" where
  "starts_with s [] = True"
| "starts_with [] (p # ps) = False"
| "starts_with (c # cs) (p # ps) = (c = p \<and> starts_with cs ps)"

text \<open>\<open>sub in s\<close> for two strings\<close>

fun str_contains :: "'a list \<Rightarrow> 'a list \<Rightarrow> bool" where
  "str_contains [] sub = (sub = [])"
| "str_contains (c # cs) sub = (starts_with (c # cs) sub \<or> str_contains cs sub)"

text \<open>\<open>s.endswith(p)\<close>\<close>

definition ends_with :: "'a list \<Rightarrow> 'a list \<Rightarrow> bool" where
  "ends_with s p = starts_with (rev s) (rev p)"

text \<open>Truthiness (\<open>if v:\<close>); an object of another type is truthy by default.\<close>

fun py_truthy :: "pyval \<Rightarrow> bool" where
  "py_truthy PyNone = False"
| "py_truthy (PyBool b) = b"
| "py_truthy (PyInt i) = (i \<noteq> 0)"
| "py_truthy (PyStr s) = (s \<noteq> [])"
| "py_truthy (PyList xs) = (xs \<noteq> [])"
| "py_truthy (PyTuple xs) = (xs \<noteq> [])"
| "py_truthy (PyDict kvs) = (kvs \<noteq> [])"
| "py_truthy (PyObj n) = True"

text \<open>
  \<open>k in v\<close> for a string \<open>k\<close>: key membership in a dict, element membership in a
  list or tuple, substring in a string, \<open>TypeError\<close> for a value that is not a container.
\<close>

fun py_in :: "string \<Rightarrow> pyval \<Rightarrow> exn + bool" where
  "py_in k (PyDict kvs) = Inr (map_of kvs k \<noteq> None)"
| "py_in k (PyList xs) = Inr (PyStr k \<in> set xs)"
| "py_in k (PyTuple xs) = Inr (PyStr k \<in> set xs)"
| "py_in k (PyStr s) = Inr (str_contains s k)"
| "py_in k PyNone = Inl TypeError"
| "py_in k (PyBool b) = Inl TypeError"
| "py_in k (PyInt i) = Inl TypeError"
| "py_in k (PyObj n) = Inl TypeError"

text \<open>
  \<open>v[k]\<close> for a string \<open>k\<close>: the value of a dict, \<open>KeyError\<close> when the key is
  missing, \<open>TypeError\<close> for everything else (a list and a string take integer indices only).
\<close>

fun py_getitem :: "pyval \<Rightarrow> string \<Rightarrow> exn + pyval" where
  "py_getitem (PyDict kvs) k = (case map_of kvs k of None \<Rightarrow> Inl KeyError | Some v \<Rightarrow> Inr v)"
| "py_getitem v k = Inl TypeError"

text \<open>\<open>d[k]\<close> for a dict given by its items\<close>

definition dict_getitem :: "pydict \<Rightarrow> string \<Rightarrow> exn + pyval" where
  "dict_getitem d k = (case map_of d k of None \<Rightarrow> Inl KeyError | Some v \<Rightarrow> Inr v)"

text \<open>
  What \<open>json.dumps\<close> accepts: values of the JSON types throughout (a tuple is written as
  a list); anything else raises \<open>TypeError\<close>.
\<close>

fun json_serializable :: "pyval \<Rightarrow> bool" where
  "json_serializable PyNone = True"
| "json_serializable (PyBool b) = True"
| "json_serializable (PyInt i) = True"
| "json_serializable (PyStr s) = True"
| "json_serializable (PyList xs) = (\<forall>x \<in> set xs. json_serializable x)"
| "json_serializable (PyTuple xs) = (\<forall>x \<in> set xs. json_serializable x)"
| "json_serializable (PyDict kvs) = (\<forall>v \<in> snd ` set kvs. json_serializable v)"
| "json_serializable (PyObj n) = False"

text \<open>Sequencing of steps that may raise: the first exception ends the computation.\<close>

definition bind_exn :: "exn + 'a \<Rightarrow> ('a \<Rightarrow> exn + 'b) \<Rightarrow> exn + 'b" where
  "bind_exn m f = (case m of Inl e \<Rightarrow> Inl e | Inr v \<Rightarrow> f v)"

text \<open>A list comprehension whose element expression may raise.\<close>

fun map_exn :: "('a \<Rightarrow> exn + 'b) \<Rightarrow> 'a list \<Rightarrow> exn + 'b list" where
  "map_exn f [] = Inr []"
| "map_exn f (x # xs) =
     (case f x of
        Inl e \<Rightarrow> Inl e
      | Inr y \<Rightarrow> (case map_exn f xs of Inl e \<Rightarrow> Inl e | Inr ys \<Rightarrow> Inr (y # ys)))"

text \<open>\<open>xs[i]\<close> for an index that is not negative: \<open>IndexError\<close> out of range.\<close>

definition list_index :: "'a list \<Rightarrow> nat \<Rightarrow> exn + 'a" where
  "list_index xs i = (if i < length xs then Inr (xs ! i) else Inl IndexError)"

text \<open>
  \<open>s.split(sep)\<close> for a separator that is not empty (Python raises \<open>ValueError\<close> for
  an empty one; every call of the source passes a literal). The result is never empty.
\<close>

function str_split :: "'a list \<Rightarrow> 'a list \<Rightarrow> 'a list list" where
  "str_split sep s =
     (if sep = [] \<or> s = [] then [s]
      else if starts_with s sep then [] # str_split sep (drop (length sep) s)
      else (case str_split sep (tl s) of
              [] \<Rightarrow> [[hd s]]
            | w # ws \<Rightarrow> (hd s # w) # ws))"
  by pat_completeness auto
termination
  by (relation "measure (\<lambda>(sep, s). length s)") auto

declare str_split.simps [simp del]

text \<open>The method call \<open>v.split(sep)\<close> on a value: only a string has the method.\<close>

definition py_split :: "pyval \<Rightarrow> string \<Rightarrow> exn + string list" where
  "py_split v sep = (case v of PyStr s \<Rightarrow> Inr (str_split sep s) | _ \<Rightarrow> Inl AttributeError)"

section \<open>The outside world: HTTP session and libraries\<close>

text \<open>
  What the code reads of a \<open>requests\<close> response. \<open>json_body\<close> is the result of
  \<open>response.json()\<close>, which raises when the body is not JSON; \<open>headers\<close> is the
  lookup \<open>response.headers[k]\<close>.
\<close>

record response =
  status_code :: int
  reason :: string
  body_text :: string
  content :: string
  headers :: "string \<rightharpoonup> string"
  json_body :: "exn + pyval"

text \<open>
  The requests the indexer sends through \<open>self.session\<close>. A body written by
  \<open>json.dumps\<close> is represented by the value it serialises. \<open>PostUpload\<close> carries the
  endpoint, customer id and corpus id of the URL, whether the URL ends with \<open>&d=True\<close>,
  the uri and file name of the \<open>file\<close> part and the \<open>doc_metadata\<close> part.
\<close>

datatype http_call =
    GetUrl string "(string \<times> string) list" nat
  | PostIndex string "(string \<times> string) list" pyval
  | PostDeleteDoc string "(string \<times> string) list" pyval
  | PostUpload string string int bool string string string "(string \<times> string) list"

text \<open>
  An element of a partitioned PDF (\<open>unstructured\<close>): its class and its text \<open>str(t)\<close>.
\<close>

datatype element_type = Title | NarrativeText | ListItem | Table | OtherElement string

datatype element = Element element_type string

fun el_type :: "element \<Rightarrow> element_type" where
  "el_type (Element ty s) = ty"

fun el_str :: "element \<Rightarrow> string" where
  "el_str (Element ty s) = s"

text \<open>The stop word classes of Goose that the indexer imports.\<close>

datatype stopwords = StopWordsArabic | StopWordsKorean | StopWordsChinese

text \<open>
  The history of the interactions with the outside world, oldest first: the requests of
  the session with their outcome, the page loads of the browser (URL, final URL and
  content or the exception), the runs of the language detector (text and outcome), and
  the calls of the two extraction strategies with the language they are given.
\<close>

datatype event =
    Http http_call "exn + response"
  | Browse string "exn + string \<times> string"
  | Detect string "exn + string option"
  | CallGoose3 string
  | CallJusText string

type_synonym world = "event list"

text \<open>
  The environment answers each request from the history so far, with a response or with
  the exception that \<open>session.get\<close>/\<open>session.post\<close> raises (a connection error once
  the retries are used up). \<open>json_text\<close> is the text \<open>json.dumps\<close> writes for a
  serialisable value; \<open>path_exists\<close> is \<open>os.path.exists\<close> and \<open>open_file\<close> the
  exception of \<open>open(filename, 'rb')\<close>, if any. The other fields are the libraries
  that \<open>index_url\<close> calls:
  \<^item> \<open>browser_goto url ms\<close>: the \<open>try\<close> block of \<open>fetch_content_with_timeout\<close> (new
    context, new page, route, goto, content, url), giving the final URL and the content;
    \<open>browser_close\<close>: the exception of the \<open>finally\<close> block, if any;
    \<open>browser_connected\<close> and \<open>browser_launch\<close>: \<open>is_connected()\<close> and the exception
    of \<open>firefox.launch\<close>, if any;
  \<^item> \<open>write_file name content\<close>: the exception of writing the file, if any;
    \<open>partition_file content\<close>: the elements \<open>partition\<close> finds in the file just written;
  \<^item> \<open>decode_utf8\<close>: \<open>bytes.decode('utf-8')\<close>; \<open>rst_to_html\<close>, \<open>markdown_to_html\<close>
    and \<open>notebook_to_html\<close>: the three converters; \<open>soup_get_text\<close>, \<open>soup_body_text\<close>
    and \<open>soup_title\<close>: BeautifulSoup's \<open>get_text()\<close> of the document, of its
    \<open>body\<close> (\<open>None\<close> without a body) and the text of its \<open>title\<close> tag (\<open>None\<close>
    without one);
  \<^item> \<open>detect\<close>: \<open>langdetect.detect\<close>, which is randomised, hence the history;
  \<^item> \<open>goose_extract cls url html\<close>: cleaned text and title of Goose with the given stop
    word class; \<open>justext_paragraphs stoplist html\<close>: the paragraphs of jusText, each with
    its \<open>is_boilerplate\<close> flag;
  \<^item> \<open>slugify\<close>: the library function of that name.
\<close>

record env =
  http :: "world \<Rightarrow> http_call \<Rightarrow> exn + response"
  json_text :: "pyval \<Rightarrow> string"
  path_exists :: "string \<Rightarrow> bool"
  open_file :: "string \<Rightarrow> exn option"
  browser_goto :: "world \<Rightarrow> string \<Rightarrow> nat \<Rightarrow> exn + string \<times> string"
  browser_close :: "world \<Rightarrow> exn option"
  browser_connected :: "world \<Rightarrow> bool"
  browser_launch :: "world \<Rightarrow> exn option"
  write_file :: "string \<Rightarrow> string \<Rightarrow> exn option"
  partition_file :: "string \<Rightarrow> exn + element list"
  decode_utf8 :: "string \<Rightarrow> exn + string"
  rst_to_html :: "string \<Rightarrow> exn + string"
  markdown_to_html :: "string \<Rightarrow> exn + string"
  notebook_to_html :: "string \<Rightarrow> exn + string"
  soup_get_text :: "string \<Rightarrow> exn + string"
  soup_body_text :: "string \<Rightarrow> exn + string option"
  soup_title :: "string \<Rightarrow> exn + string option"
  detect :: "world \<Rightarrow> string \<Rightarrow> exn + string option"
  goose_extract :: "stopwords option \<Rightarrow> string \<Rightarrow> string \<Rightarrow> exn + string \<times> string option"
  justext_paragraphs :: "string option \<Rightarrow> string \<Rightarrow> exn + (string \<times> bool) list"
  slugify :: "string \<Rightarrow> string"

definition json_dumps :: "env \<Rightarrow> pyval \<Rightarrow> exn + string" where
  "json_dumps env v = (if json_serializable v then Inr (json_text env v) else Inl TypeError)"

definition session_request :: "env \<Rightarrow> world \<Rightarrow> http_call \<Rightarrow> (exn + response) \<times> world" where
  "session_request env tr c = (let out = http env tr c in (out, tr @ [Http c out]))"

section \<open>The indexer (core/indexer.py)\<close>

text \<open>
  The attributes of an \<open>Indexer\<close>. The session, the Playwright handle and the browser
  are handles to the outside world; what they do is in the environment.
\<close>

record indexer =
  endpoint :: string
  customer_id :: string
  corpus_id :: int
  api_key :: string
  reindex :: bool
  timeout :: nat
  detected_language :: string

definition Indexer_init :: "string \<Rightarrow> string \<Rightarrow> int \<Rightarrow> string \<Rightarrow> bool \<Rightarrow> indexer" where
  "Indexer_init ep cust corp key re =
     \<lparr>endpoint = ep, customer_id = cust, corpus_id = corp, api_key = key,
      reindex = re, timeout = 30, detected_language = ''''\<rparr>"

definition post_headers :: "indexer \<Rightarrow> (string \<times> string) list" where
  "post_headers self = [(''x-api-key'', api_key self), (''customer-id'', customer_id self)]"

definition delete_doc :: "env \<Rightarrow> indexer \<Rightarrow> pyval \<Rightarrow> world \<Rightarrow> (exn + bool) \<times> world" where
  "delete_doc env self doc_id tr =
     (let body = PyDict [(''customer_id'', PyStr (customer_id self)),
                         (''corpus_id'', PyInt (corpus_id self)),
                         (''document_id'', doc_id)]
      in case json_dumps env body of
           Inl e \<Rightarrow> (Inl e, tr)
         | Inr data \<Rightarrow>
             (case session_request env tr (PostDeleteDoc (endpoint self) (post_headers self) body) of
                (Inl e, tr1) \<Rightarrow> (Inl e, tr1)
              | (Inr response, tr1) \<Rightarrow>
                  if status_code response \<noteq> 200 then (Inr False, tr1) else (Inr True, tr1)))"

text \<open>
  The test of lines 400 to 402 on the decoded body, with Python's short-circuit
  \<open>and\<close>/\<open>or\<close>: each subscript and each \<open>in\<close> may raise.
\<close>

definition already_exists :: "pyval \<Rightarrow> exn + bool" where
  "already_exists result =
     bind_exn (py_in ''status'' result) (\<lambda>has_status.
       if \<not> has_status then Inr False
       else bind_exn (py_getitem result ''status'') (\<lambda>status.
         if \<not> py_truthy status then Inr False
         else bind_exn (py_getitem status ''code'') (\<lambda>code.
           bind_exn (py_in ''ALREADY_EXISTS'' code) (\<lambda>exists.
             if exists then Inr True
             else bind_exn (py_in ''CONFLICT'' code) (\<lambda>conflict.
               if \<not> conflict then Inr False
               else bind_exn (py_getitem status ''statusDetail'') (\<lambda>detail.
                 py_in ''Indexing doesn't support updating documents'' detail))))))"

text \<open>The test of line 411.\<close>

definition status_ok :: "pyval \<Rightarrow> exn + bool" where
  "status_ok result =
     bind_exn (py_in ''status'' result) (\<lambda>has_status.
       if \<not> has_status then Inr False
       else bind_exn (py_getitem result ''status'') (\<lambda>status.
         if \<not> py_truthy status then Inr False
         else bind_exn (py_getitem status ''code'') (\<lambda>code. py_in ''OK'' code)))"

text \<open>
  A log line that formats \<open>document['documentId']\<close> raises \<open>KeyError\<close> when the key is
  missing; the other log lines cannot raise and are left out.
\<close>

definition log_document_id :: "pydict \<Rightarrow> exn option" where
  "log_document_id document =
     (case dict_getitem document ''documentId'' of Inl e \<Rightarrow> Some e | Inr v \<Rightarrow> None)"

definition index_request :: "indexer \<Rightarrow> pydict \<Rightarrow> pyval" where
  "index_request self document =
     PyDict [(''customer_id'', PyStr (customer_id self)),
             (''corpus_id'', PyInt (corpus_id self)),
             (''document'', PyDict document)]"

definition index_document :: "env \<Rightarrow> indexer \<Rightarrow> pydict \<Rightarrow> world \<Rightarrow> (exn + bool) \<times> world" where
  "index_document env self document tr =
     (let request = index_request self document
      in case json_dumps env request of
           Inl e \<Rightarrow> (Inr False, tr)
         | Inr data \<Rightarrow>
             (case session_request env tr (PostIndex (endpoint self) (post_headers self) request) of
                (Inl e, tr1) \<Rightarrow>
                  (case log_document_id document of
                     Some e' \<Rightarrow> (Inl e', tr1)
                   | None \<Rightarrow> (Inr False, tr1))
              | (Inr response, tr1) \<Rightarrow>
                  if status_code response \<noteq> 200 then (Inr False, tr1)
                  else
                    (case json_body response of
                       Inl e \<Rightarrow> (Inl e, tr1)
                     | Inr result \<Rightarrow>
                         (case already_exists result of
                            Inl e \<Rightarrow> (Inl e, tr1)
                          | Inr True \<Rightarrow>
                              if reindex self then
                                (case dict_getitem document ''documentId'' of
                                   Inl e \<Rightarrow> (Inl e, tr1)
                                 | Inr doc_id \<Rightarrow>
                                     (case delete_doc env self doc_id tr1 of
                                        (Inl e, tr2) \<Rightarrow> (Inl e, tr2)
                                      | (Inr deleted, tr2) \<Rightarrow>
                                          (case json_dumps env request of
                                             Inl e \<Rightarrow> (Inl e, tr2)
                                           | Inr data2 \<Rightarrow>
                                               (case session_request env tr2
                                                       (PostIndex (endpoint self) (post_headers self) request) of
                                                  (Inl e, tr3) \<Rightarrow> (Inl e, tr3)
                                                | (Inr response2, tr3) \<Rightarrow> (Inr True, tr3)))))
                              else
                                (case log_document_id document of
                                   Some e \<Rightarrow> (Inl e, tr1)
                                 | None \<Rightarrow> (Inr False, tr1))
                          | Inr False \<Rightarrow>
                              (case status_ok result of
                                 Inl e \<Rightarrow> (Inl e, tr1)
                               | Inr True \<Rightarrow> (Inr True, tr1)
                               | Inr False \<Rightarrow>
                                   (case log_document_id document of
                                      Some e \<Rightarrow> (Inl e, tr1)
                                    | None \<Rightarrow> (Inr False, tr1)))))))"

text \<open>
  The dict that \<open>index_segments\<close> builds in lines 355 to 361, in insertion order.
  \<open>zip\<close> stops at the shorter of \<open>parts\<close> and \<open>metadatas\<close>; a section's metadata
  that \<open>json.dumps\<close> refuses raises.
\<close>

definition segments_section :: "env \<Rightarrow> string \<times> pydict \<Rightarrow> exn + pyval" where
  "segments_section env pm =
     (case pm of (part, md) \<Rightarrow>
        bind_exn (json_dumps env (PyDict md)) (\<lambda>j.
          Inr (PyDict [(''text'', PyStr part), (''metadataJson'', PyStr j)])))"

definition segments_document ::
  "env \<Rightarrow> pyval \<Rightarrow> string list \<Rightarrow> pydict list \<Rightarrow> pydict \<Rightarrow> pyval \<Rightarrow> exn + pydict" where
  "segments_document env doc_id parts metadatas doc_metadata title =
     (let document0 = [(''documentId'', doc_id)];
          document1 = (if py_truthy title then document0 @ [(''title'', title)] else document0)
      in bind_exn (map_exn (segments_section env) (zip parts metadatas)) (\<lambda>sections.
           let document2 = document1 @ [(''section'', PyList sections)]
           in if py_truthy (PyDict doc_metadata)
              then bind_exn (json_dumps env (PyDict doc_metadata)) (\<lambda>j.
                     Inr (document2 @ [(''metadataJson'', PyStr j)]))
              else Inr document2))"

definition index_segments ::
  "env \<Rightarrow> indexer \<Rightarrow> pyval \<Rightarrow> string list \<Rightarrow> pydict list \<Rightarrow> pydict \<Rightarrow> pyval \<Rightarrow> world
     \<Rightarrow> (exn + bool) \<times> world" where
  "index_segments env self doc_id parts metadatas doc_metadata title tr =
     (case segments_document env doc_id parts metadatas doc_metadata title of
        Inl e \<Rightarrow> (Inl e, tr)
      | Inr document \<Rightarrow> index_document env self document tr)"

text \<open>
  The document id that \<open>index_file\<close> reads out of a 409 response (line 246):
  \<open>response.json()['details'].split('document id')[1].split("'")[1]\<close>.
\<close>

definition conflict_doc_id :: "response \<Rightarrow> exn + string" where
  "conflict_doc_id response =
     bind_exn (json_body response) (\<lambda>j.
       bind_exn (py_getitem j ''details'') (\<lambda>details.
         bind_exn (py_split details ''document id'') (\<lambda>ws.
           bind_exn (list_index ws 1) (\<lambda>rest.
             list_index (str_split [CHR 0x27] rest) 1))))"

definition index_file ::
  "env \<Rightarrow> indexer \<Rightarrow> string \<Rightarrow> string \<Rightarrow> pydict \<Rightarrow> world \<Rightarrow> (exn + bool) \<times> world" where
  "index_file env self filename uri metadata tr =
     (if path_exists env filename = False then (Inr False, tr)
      else
        (case open_file env filename of
           Some e \<Rightarrow> (Inl e, tr)
         | None \<Rightarrow>
             (case json_dumps env (PyDict metadata) of
                Inl e \<Rightarrow> (Inl e, tr)
              | Inr md \<Rightarrow>
                  (case session_request env tr
                          (PostUpload (endpoint self) (customer_id self) (corpus_id self) True
                             uri filename md (post_headers self)) of
                     (Inl e, tr1) \<Rightarrow> (Inl e, tr1)
                   | (Inr response, tr1) \<Rightarrow>
                       if status_code response = 409 then
                         (if reindex self then
                            (case conflict_doc_id response of
                               Inl e \<Rightarrow> (Inl e, tr1)
                             | Inr doc_id \<Rightarrow>
                                 (case delete_doc env self (PyStr doc_id) tr1 of
                                    (Inl e, tr2) \<Rightarrow> (Inl e, tr2)
                                  | (Inr deleted, tr2) \<Rightarrow>
                                      (case session_request env tr2
                                              (PostUpload (endpoint self) (customer_id self)
                                                 (corpus_id self) False uri filename md
                                                 (post_headers self)) of
                                         (Inl e, tr3) \<Rightarrow> (Inl e, tr3)
                                       | (Inr response2, tr3) \<Rightarrow>
                                           if status_code response2 = 200 then (Inr True, tr3)
                                           else (Inr True, tr3))))
                          else (Inr False, tr1))
                       else if status_code response \<noteq> 200 then (Inr False, tr1)
                       else (Inr True, tr1)))))"

text \<open>The three requests of the reconciliation paths, as the code builds them.\<close>

definition index_call :: "indexer \<Rightarrow> pydict \<Rightarrow> http_call" where
  "index_call self document =
     PostIndex (endpoint self) (post_headers self) (index_request self document)"

definition delete_call :: "indexer \<Rightarrow> pyval \<Rightarrow> http_call" where
  "delete_call self doc_id =
     PostDeleteDoc (endpoint self) (post_headers self)
       (PyDict [(''customer_id'', PyStr (customer_id self)),
                (''corpus_id'', PyInt (corpus_id self)),
                (''document_id'', doc_id)])"

definition upload_call :: "indexer \<Rightarrow> bool \<Rightarrow> string \<Rightarrow> string \<Rightarrow> string \<Rightarrow> http_call" where
  "upload_call self dedup uri filename md =
     PostUpload (endpoint self) (customer_id self) (corpus_id self) dedup uri filename md
       (post_headers self)"

section \<open>URL crawling (index\_url and its helpers)\<close>

text \<open>
  \<open>s.lower()\<close> on the ASCII letters. The code compares the result with ASCII text
  only (a suffix test, a scheme), where the letters outside ASCII make no difference.
\<close>

definition lower_char :: "char \<Rightarrow> char" where
  "lower_char c =
     (case map_of (zip ''ABCDEFGHIJKLMNOPQRSTUVWXYZ'' ''abcdefghijklmnopqrstuvwxyz'') c of
        Some l \<Rightarrow> l
      | None \<Rightarrow> c)"

definition str_lower :: "string \<Rightarrow> string" where
  "str_lower s = map lower_char s"

text \<open>\<open>sep.join(xs)\<close>\<close>

fun str_join :: "'a list \<Rightarrow> 'a list list \<Rightarrow> 'a list" where
  "str_join sep [] = []"
| "str_join sep [x] = x"
| "str_join sep (x # y # ys) = x @ sep @ str_join sep (y # ys)"

text \<open>The two stop word tables at the head of the module.\<close>

definition language_stopwords_Goose :: "(string \<times> stopwords option) list" where
  "language_stopwords_Goose =
     [(''en'', None), (''ar'', Some StopWordsArabic), (''zh-cn'', Some StopWordsChinese),
      (''zh-tw'', Some StopWordsChinese), (''ko'', Some StopWordsKorean)]"

definition language_stopwords_JusText :: "(string \<times> string option) list" where
  "language_stopwords_JusText =
     [(''en'', None), (''ar'', Some ''Arabic''), (''ko'', Some ''Korean''), (''ur'', Some ''Urdu''),
      (''hi'', Some ''Hindi''), (''fa'', Some ''Persian''), (''ja'', Some ''Japanese''),
      (''bg'', Some ''Bulgarian''), (''sv'', Some ''Swedish''), (''lv'', Some ''Latvian''),
      (''sr'', Some ''Serbian''), (''sq'', Some ''Albanian''), (''es'', Some ''Spanish''),
      (''ka'', Some ''Gerogian''), (''de'', Some ''German''), (''el'', Some ''Greek''),
      (''ga'', Some ''Irish''), (''vi'', Some ''Vietnamese''), (''hu'', Some ''Hungarian''),
      (''pt'', Some ''Portuguese''), (''pl'', Some ''Polish''), (''it'', Some ''Italian''),
      (''la'', Some ''Latin''), (''tr'', Some ''Turkish''), (''id'', Some ''Indonesian''),
      (''hr'', Some ''Croatian''), (''be'', Some ''Belarusian''), (''ru'', Some ''Russian''),
      (''et'', Some ''Estonian''), (''uk'', Some ''Ukranian''), (''ro'', Some ''Romanian''),
      (''cs'', Some ''Czech''), (''ml'', Some ''Malyalam''), (''sk'', Some ''Slovak''),
      (''fi'', Some ''Finnish''), (''da'', Some ''Danish''), (''ms'', Some ''Malay''),
      (''ca'', Some ''Catalan''), (''eo'', Some ''Esperanto''), (''nb'', Some ''Norwegian_Bokmal''),
      (''nn'', Some ''Norwegian_Nynorsk'')]"

text \<open>
  The extraction strategies return the text and the title; Goose's title may be \<open>None\<close>
  (\<open>index_url\<close> checks for it), so a title is a \<open>string option\<close> throughout.
\<close>

definition get_content_with_justext ::
  "env \<Rightarrow> string \<Rightarrow> string \<Rightarrow> string \<Rightarrow> exn + string \<times> string option" where
  "get_content_with_justext env html_content url lang =
     bind_exn
       (if lang = ''en'' then justext_paragraphs env (Some ''English'') html_content
        else
          (let stopwords_keyword =
                 (case map_of language_stopwords_JusText lang of
                    Some v \<Rightarrow> v
                  | None \<Rightarrow> Some ''English'')
           in justext_paragraphs env stopwords_keyword html_content))
       (\<lambda>paragraphs.
          let text = str_join [CHR 0x0A] (map fst (filter (\<lambda>p. \<not> snd p) paragraphs))
          in bind_exn (soup_title env html_content) (\<lambda>stitle.
               case stitle of
                 Some t \<Rightarrow> Inr (text, Some t)
               | None \<Rightarrow> Inr (text, Some ''No title'')))"

definition get_content_with_goose3 ::
  "env \<Rightarrow> string \<Rightarrow> string \<Rightarrow> string \<Rightarrow> exn + string \<times> string option" where
  "get_content_with_goose3 env html_content url lang =
     (if map_of language_stopwords_Goose lang \<noteq> None then
        (let stopwords_class =
               (case map_of language_stopwords_Goose lang of Some c \<Rightarrow> c | None \<Rightarrow> None)
         in goose_extract env stopwords_class url html_content)
      else Inr ('''', Some ''''))"

definition get_content_and_title ::
  "env \<Rightarrow> string \<Rightarrow> string \<Rightarrow> string \<Rightarrow> world \<Rightarrow> (exn + string \<times> string option) \<times> world" where
  "get_content_and_title env html_content url lang tr =
     (let tr1 = tr @ [CallGoose3 lang]
      in case get_content_with_goose3 env html_content url lang of
           Inl e \<Rightarrow> (Inl e, tr1)
         | Inr (text1, title1) \<Rightarrow>
             (let tr2 = tr1 @ [CallJusText lang]
              in case get_content_with_justext env html_content url lang of
                   Inl e \<Rightarrow> (Inl e, tr2)
                 | Inr (text2, title2) \<Rightarrow>
                     if length text1 > length text2 then (Inr (text1, title1), tr2)
                     else (Inr (text2, title2), tr2)))"

text \<open>\<open>detect_language\<close> of core/utils.py: English when the detector raises or gives \<open>None\<close>.\<close>

definition detect_language :: "env \<Rightarrow> string \<Rightarrow> world \<Rightarrow> string \<times> world" where
  "detect_language env text tr =
     (let out = detect env tr text
      in (case out of
            Inr (Some lang) \<Rightarrow> lang
          | Inr None \<Rightarrow> ''en''
          | Inl e \<Rightarrow> ''en'',
          tr @ [Detect text out]))"

text \<open>\<open>html_to_text\<close> of core/utils.py\<close>

definition html_to_text :: "env \<Rightarrow> string \<Rightarrow> exn + string" where
  "html_to_text env html = soup_get_text env html"

text \<open>
  \<open>fetch_content_with_timeout\<close>: a timeout gives two empty strings, so does any other
  exception of the \<open>try\<close> block, after a relaunch of a browser that is not connected.
  The \<open>finally\<close> block runs on every path; what it raises replaces the result.
\<close>

definition fetch_content_with_timeout ::
  "env \<Rightarrow> string \<Rightarrow> nat \<Rightarrow> world \<Rightarrow> (exn + string \<times> string) \<times> world" where
  "fetch_content_with_timeout env url tmo tr =
     (let out = browser_goto env tr url (tmo * 1000);
          tr1 = tr @ [Browse url out]
      in case out of
           Inr (out_url, page_content) \<Rightarrow>
             (case browser_close env tr1 of
                Some e \<Rightarrow> (Inl e, tr1)
              | None \<Rightarrow> (Inr (out_url, page_content), tr1))
         | Inl e \<Rightarrow>
             if e = PlaywrightTimeoutError then
               (case browser_close env tr1 of
                  Some e' \<Rightarrow> (Inl e', tr1)
                | None \<Rightarrow> (Inr ('''', ''''), tr1))
             else
               (case (if \<not> browser_connected env tr1 then browser_launch env tr1 else None) of
                  Some e1 \<Rightarrow>
                    (case browser_close env tr1 of
                       Some e' \<Rightarrow> (Inl e', tr1)
                     | None \<Rightarrow> (Inl e1, tr1))
                | None \<Rightarrow>
                    (case browser_close env tr1 of
                       Some e' \<Rightarrow> (Inl e', tr1)
                     | None \<Rightarrow> (Inr ('''', ''''), tr1))))"

text \<open>\<open>response.raise_for_status()\<close>\<close>

definition raise_for_status :: "response \<Rightarrow> exn option" where
  "raise_for_status r =
     (if 400 \<le> status_code r \<and> status_code r < 600 then Some HTTPError else None)"

text \<open>
  What the first part of \<open>index_url\<close> (lines 274 to 342) hands to the last: the URL, the
  parts and the title.
\<close>

datatype extraction = Extracted string "string list" "string option"

text \<open>Lines 300 to 302: the parts and the title of a partitioned PDF.\<close>

definition pdf_parts :: "element list \<Rightarrow> string list" where
  "pdf_parts elements = map el_str (filter (\<lambda>t. el_type t \<noteq> Title) elements)"

definition pdf_title :: "element list \<Rightarrow> string" where
  "pdf_title elements =
     (let titles = map el_str (filter (\<lambda>x. el_type x = Title \<and> length (el_str x) > 20) elements)
      in if length titles > 0 then titles ! 0 else ''unknown'')"

text \<open>
  The PDF branch (lines 293 to 305): every exception is caught and the function returns
  \<open>False\<close>, here \<open>None\<close>.
\<close>

definition index_url_pdf :: "env \<Rightarrow> indexer \<Rightarrow> string \<Rightarrow> world \<Rightarrow> extraction option \<times> world" where
  "index_url_pdf env self url tr =
     (case session_request env tr (GetUrl url [] (timeout self)) of
        (Inl e, tr1) \<Rightarrow> (None, tr1)
      | (Inr response, tr1) \<Rightarrow>
          (case raise_for_status response of
             Some e \<Rightarrow> (None, tr1)
           | None \<Rightarrow>
               (case write_file env ''tmp.pdf'' (content response) of
                  Some e \<Rightarrow> (None, tr1)
                | None \<Rightarrow>
                    (case partition_file env (content response) of
                       Inl e \<Rightarrow> (None, tr1)
                     | Inr elements \<Rightarrow>
                         (Some (Extracted url (pdf_parts elements) (Some (pdf_title elements))),
                          tr1)))))"

text \<open>
  The Markdown, RST and notebook branch (lines 309 to 322) has no \<open>try\<close>: what the
  download, the decoding, a converter or \<open>html_to_text\<close> raises leaves \<open>index_url\<close>.
  The three suffix tests of lines 312 to 316 cover every URL that enters the branch; a
  URL that passed none of them would meet an unbound \<open>html_content\<close>.
\<close>

definition index_url_markup :: "env \<Rightarrow> indexer \<Rightarrow> string \<Rightarrow> world \<Rightarrow> (exn + extraction) \<times> world" where
  "index_url_markup env self url tr =
     (case session_request env tr (GetUrl url [] (timeout self)) of
        (Inl e, tr1) \<Rightarrow> (Inl e, tr1)
      | (Inr response, tr1) \<Rightarrow>
          (case raise_for_status response of
             Some e \<Rightarrow> (Inl e, tr1)
           | None \<Rightarrow>
               (bind_exn (decode_utf8 env (content response)) (\<lambda>dl_content.
                  bind_exn
                    (if ends_with url ''rst'' then rst_to_html env dl_content
                     else if ends_with url ''md'' then markdown_to_html env dl_content
                     else if ends_with (str_lower url) ''ipynb'' then notebook_to_html env dl_content
                     else Inl (OtherError ''UnboundLocalError''))
                    (\<lambda>html_content.
                       let title = last (str_split ''/'' url)
                       in bind_exn (html_to_text env html_content) (\<lambda>text.
                            Inr (Extracted url [text] (Some title))))),
                tr1)))"

text \<open>
  The rendered branch (lines 325 to 342): the page is fetched with the default timeout
  of 30 seconds; the language is detected only while \<open>detected_language\<close> is empty and
  the page has a body; every exception is caught and the function returns \<open>False\<close>,
  here \<open>None\<close>. The assignment to \<open>detected_language\<close> stays when a later step raises.
\<close>

definition index_url_html ::
  "env \<Rightarrow> indexer \<Rightarrow> string \<Rightarrow> world \<Rightarrow> extraction option \<times> indexer \<times> world" where
  "index_url_html env self url tr =
     (case fetch_content_with_timeout env url 30 tr of
        (Inl e, tr1) \<Rightarrow> (None, self, tr1)
      | (Inr (actual_url, html_content), tr1) \<Rightarrow>
          if length html_content < 3 then (None, self, tr1)
          else
            (case (if detected_language self = ''''
                   then (case soup_body_text env html_content of
                           Inl e \<Rightarrow> Inl e
                         | Inr None \<Rightarrow> Inr (self, tr1)
                         | Inr (Some body) \<Rightarrow>
                             (case detect_language env body tr1 of
                                (lang, tr2) \<Rightarrow> Inr (self\<lparr>detected_language := lang\<rparr>, tr2)))
                   else Inr (self, tr1)) of
               Inl e \<Rightarrow> (None, self, tr1)
             | Inr (self2, tr2) \<Rightarrow>
                 (case get_content_and_title env html_content actual_url (detected_language self2) tr2 of
                    (Inl e, tr3) \<Rightarrow> (None, self2, tr3)
                  | (Inr (text, title), tr3) \<Rightarrow>
                      (Some (Extracted actual_url [text] title), self2, tr3))))"

definition probe_headers :: "(string \<times> string) list" where
  "probe_headers =
     [(''User-Agent'',
       ''Mozilla/5.0 (Windows NT 10.0; Win64; x64; rv:98.0) Gecko/20100101 Firefox/98.0''),
      (''Accept'',
       ''text/html,application/xhtml+xml,application/xml;q=0.9,image/avif,image/webp,*/*;q=0.8'')]"

text \<open>Whether lines 292 and 308 send a URL to the PDF or to the markup branch.\<close>

definition is_pdf :: "string \<Rightarrow> string \<Rightarrow> bool" where
  "is_pdf content_type url = (content_type = ''application/pdf'' \<or> ends_with url ''.pdf'')"

definition is_markup :: "string \<Rightarrow> bool" where
  "is_markup url =
     (ends_with url ''.md'' \<or> ends_with url ''.rst'' \<or> ends_with (str_lower url) ''.ipynb'')"

text \<open>
  Lines 274 to 342 of \<open>index_url\<close>. The result is an exception that leaves
  \<open>index_url\<close>, \<open>None\<close> for \<open>return False\<close>, or the extraction.
\<close>

definition index_url_extract ::
  "env \<Rightarrow> string \<Rightarrow> indexer \<times> world \<Rightarrow> (exn + extraction option) \<times> indexer \<times> world" where
  "index_url_extract env url st =
     (case st of (self, tr) \<Rightarrow>
        (case session_request env tr (GetUrl url probe_headers (timeout self)) of
           (Inl e, tr1) \<Rightarrow> (Inr None, self, tr1)
         | (Inr response, tr1) \<Rightarrow>
             if status_code response \<noteq> 200 then (Inr None, self, tr1)
             else
               (case headers response ''Content-Type'' of
                  None \<Rightarrow> (Inr None, self, tr1)
                | Some content_type \<Rightarrow>
                    if is_pdf content_type url then
                      (case index_url_pdf env self url tr1 of
                         (x, tr2) \<Rightarrow> (Inr x, self, tr2))
                    else if is_markup url then
                      (case index_url_markup env self url tr1 of
                         (Inl e, tr2) \<Rightarrow> (Inl e, self, tr2)
                       | (Inr x, tr2) \<Rightarrow> (Inr (Some x), self, tr2))
                    else
                      (case index_url_html env self url tr1 of
                         (x, self2, tr2) \<Rightarrow> (Inr x, self2, tr2)))))"

text \<open>
  \<open>index_url\<close>: the extraction, then lines 344 to 349. The metadatas are
  \<open>[{}] * len(parts)\<close>; a title that is \<open>None\<close> becomes "No Title".
\<close>

definition index_url ::
  "env \<Rightarrow> string \<Rightarrow> pydict \<Rightarrow> indexer \<times> world \<Rightarrow> (exn + bool) \<times> indexer \<times> world" where
  "index_url env url metadata st =
     (case index_url_extract env url st of
        (Inl e, self2, tr2) \<Rightarrow> (Inl e, self2, tr2)
      | (Inr None, self2, tr2) \<Rightarrow> (Inr False, self2, tr2)
      | (Inr (Some (Extracted url2 parts title)), self2, tr2) \<Rightarrow>
          (case index_segments env self2 (PyStr (slugify env url2)) parts
                  (replicate (length parts) []) metadata
                  (case title of Some t \<Rightarrow> PyStr t | None \<Rightarrow> PyStr ''No Title'') tr2 of
             (Inl e, tr3) \<Rightarrow> (Inl e, self2, tr3)
           | (Inr succeeded, tr3) \<Rightarrow>
               if succeeded then (Inr True, self2, tr3) else (Inr False, self2, tr3)))"

section \<open>URL normalisation (core/utils.py)\<close>

subsection \<open>String methods\<close>

text \<open>
  \<open>s.find(c)\<close>, \<open>s.find(c, start)\<close> and \<open>s.rfind(c)\<close> for a character \<open>c\<close>:
  \<open>None\<close> where Python returns -1.
\<close>

definition find_char :: "'a \<Rightarrow> 'a list \<Rightarrow> nat option" where
  "find_char c s = (if c \<in> set s then Some (length (takeWhile (\<lambda>x. x \<noteq> c) s)) else None)"

definition find_char_from :: "'a \<Rightarrow> 'a list \<Rightarrow> nat \<Rightarrow> nat option" where
  "find_char_from c s start =
     (case find_char c (drop start s) of None \<Rightarrow> None | Some i \<Rightarrow> Some (start + i))"

definition rfind_char :: "'a \<Rightarrow> 'a list \<Rightarrow> nat option" where
  "rfind_char c s =
     (case find_char c (rev s) of None \<Rightarrow> None | Some i \<Rightarrow> Some (length s - 1 - i))"

text \<open>
  \<open>s.replace(old, new)\<close> for an \<open>old\<close> that is not empty: the occurrences are taken
  from the left and do not overlap. (Every call passes a literal \<open>old\<close>; for the empty
  one, where Python inserts \<open>new\<close> around every character, the string is returned.)
\<close>

function str_replace :: "'a list \<Rightarrow> 'a list \<Rightarrow> 'a list \<Rightarrow> 'a list" where
  "str_replace old new s =
     (if old = [] \<or> s = [] then s
      else if starts_with s old then new @ str_replace old new (drop (length old) s)
      else hd s # str_replace old new (tl s))"
  by pat_completeness auto
termination
  by (relation "measure (\<lambda>(old, new, s). length s)") auto

declare str_replace.simps [simp del]

text \<open>\<open>s.lstrip(chars)\<close>\<close>

definition str_lstrip :: "'a list \<Rightarrow> 'a list \<Rightarrow> 'a list" where
  "str_lstrip chars s = dropWhile (\<lambda>c. c \<in> set chars) s"

text \<open>
  The two parts of \<open>s.split(c, 1)\<close>: the text before the first \<open>c\<close> and the text
  after it; the whole string and nothing when \<open>c\<close> does not occur.
\<close>

definition split_first :: "'a \<Rightarrow> 'a list \<Rightarrow> 'a list \<times> 'a list" where
  "split_first c s =
     (case find_char c s of Some i \<Rightarrow> (take i s, drop (Suc i) s) | None \<Rightarrow> (s, []))"

text \<open>\<open>c.isascii()\<close>, and \<open>c.isalpha()\<close> for an ASCII character\<close>

definition is_ascii :: "char \<Rightarrow> bool" where
  "is_ascii c = (of_char c < (128 :: nat))"

definition is_alpha :: "char \<Rightarrow> bool" where
  "is_alpha c = (c \<in> set ''abcdefghijklmnopqrstuvwxyzABCDEFGHIJKLMNOPQRSTUVWXYZ'')"

subsection \<open>urllib.parse (CPython 3.11)\<close>

text \<open>
  \<open>urlparse\<close>, \<open>urlsplit\<close> and \<open>urlunsplit\<close> as \<open>Lib/urllib/parse.py\<close> of
  CPython 3.11 has them, called with the default arguments (\<open>scheme=''\<close>,
  \<open>allow_fragments=True\<close>). Two checks of \<open>urlsplit\<close> call further libraries, which
  are parameters here: whether \<open>ipaddress.ip_address\<close> accepts a bracketed host as an
  IPv6 address, and \<open>unicodedata.normalize('NFKC', _)\<close>.
\<close>

record stdlib =
  ip_address_v6 :: "string \<Rightarrow> bool"
  nfkc :: "string \<Rightarrow> string"

definition uses_netloc :: "string list" where
  "uses_netloc =
     ['''', ''ftp'', ''http'', ''gopher'', ''nntp'', ''telnet'', ''imap'', ''wais'', ''file'',
      ''mms'', ''https'', ''shttp'', ''snews'', ''prospero'', ''rtsp'', ''rtsps'', ''rtspu'',
      ''rsync'', ''svn'', ''svn+ssh'', ''sftp'', ''nfs'', ''git'', ''git+ssh'', ''ws'', ''wss'']"

definition uses_params :: "string list" where
  "uses_params =
     ['''', ''ftp'', ''hdl'', ''prospero'', ''http'', ''imap'', ''https'', ''shttp'', ''rtsp'',
      ''rtsps'', ''rtspu'', ''sip'', ''sips'', ''mms'', ''sftp'', ''tel'']"

definition scheme_chars :: string where
  "scheme_chars = ''abcdefghijklmnopqrstuvwxyzABCDEFGHIJKLMNOPQRSTUVWXYZ0123456789+-.''"

text \<open>The characters from \<open>U+0000\<close> to the space, stripped from the left of a URL.\<close>

definition is_c0_control_or_space :: "char \<Rightarrow> bool" where
  "is_c0_control_or_space c = (of_char c \<le> (32 :: nat))"

text \<open>Tab, carriage return and newline, removed from a URL wherever they stand.\<close>

definition unsafe_url_bytes :: string where
  "unsafe_url_bytes = [CHR 0x09, CHR 0x0D, CHR 0x0A]"

definition remove_unsafe :: "string \<Rightarrow> string" where
  "remove_unsafe url = fold (\<lambda>b u. str_replace [b] [] u) unsafe_url_bytes url"

text \<open>
  The scheme block of \<open>urlsplit\<close>: the text before the first colon is the scheme when
  it starts with an ASCII letter and holds scheme characters only.
\<close>

definition split_scheme :: "string \<Rightarrow> string \<times> string" where
  "split_scheme url =
     (case find_char CHR '':'' url of
        None \<Rightarrow> ('''', url)
      | Some i \<Rightarrow>
          if i > 0 \<and> is_ascii (url ! 0) \<and> is_alpha (url ! 0)
             \<and> (\<forall>c \<in> set (take i url). c \<in> set scheme_chars)
          then (str_lower (take i url), drop (Suc i) url)
          else ('''', url))"

text \<open>\<open>_splitnetloc(url, start)\<close>: the earliest of the delimiters ends the domain.\<close>

definition splitnetloc :: "string \<Rightarrow> nat \<Rightarrow> string \<times> string" where
  "splitnetloc url start =
     (let delim = fold (\<lambda>c delim. case find_char_from c url start of
                                      Some wdelim \<Rightarrow> min delim wdelim
                                    | None \<Rightarrow> delim)
                       ''/?#'' (length url)
      in (take (delim - start) (drop start url), drop delim url))"

text \<open>
  \<open>_check_bracketed_host\<close>: an IPvFuture address matches
  \<open>\Av[a-fA-F0-9]+\..+\Z\<close> (the dot of the pattern matches no newline); any other
  host in brackets has to be an IPv6 address. \<open>True\<close> when the host passes.
\<close>

definition is_hex_digit :: "char \<Rightarrow> bool" where
  "is_hex_digit c = (c \<in> set ''0123456789abcdefABCDEF'')"

definition check_bracketed_host :: "stdlib \<Rightarrow> string \<Rightarrow> bool" where
  "check_bracketed_host lib hostname =
     (if starts_with hostname ''v'' then
        (let digits = takeWhile is_hex_digit (drop 1 hostname);
             rest = drop (length digits) (drop 1 hostname)
         in digits \<noteq> [] \<and> starts_with rest ''.'' \<and> drop 1 rest \<noteq> []
            \<and> CHR 0x0A \<notin> set (drop 1 rest))
      else ip_address_v6 lib hostname)"

text \<open>The part of \<open>s\<close> after the first \<open>[\<close> and before the next \<open>]\<close>.\<close>

definition bracketed_host :: "string \<Rightarrow> string" where
  "bracketed_host netloc = fst (split_first CHR '']'' (snd (split_first CHR ''['' netloc)))"

text \<open>\<open>_checknetloc\<close>: \<open>True\<close> when the netloc passes.\<close>

definition checknetloc :: "stdlib \<Rightarrow> string \<Rightarrow> bool" where
  "checknetloc lib netloc =
     (if netloc = [] \<or> (\<forall>c \<in> set netloc. is_ascii c) then True
      else
        (let n = fold (\<lambda>b u. str_replace [b] [] u) ''@:#?'' netloc;
             netloc2 = nfkc lib n
         in if n = netloc2 then True
            else \<not> (\<exists>c \<in> set ''/?#@:''. c \<in> set netloc2)))"

text \<open>
  \<open>urlsplit(url)\<close>: scheme, netloc, path, query and fragment, or the \<open>ValueError\<close>
  of one of its checks.
\<close>

definition urlsplit :: "stdlib \<Rightarrow> string \<Rightarrow> exn + string \<times> string \<times> string \<times> string \<times> string" where
  "urlsplit lib url0 =
     (let url1 = remove_unsafe (dropWhile is_c0_control_or_space url0);
          (scheme, url2) = split_scheme url1;
          (netloc, url3) = (if take 2 url2 = ''//'' then splitnetloc url2 2 else ('''', url2))
      in if take 2 url2 = ''//'' \<and>
            ((CHR ''['' \<in> set netloc \<and> CHR '']'' \<notin> set netloc) \<or>
             (CHR '']'' \<in> set netloc \<and> CHR ''['' \<notin> set netloc))
         then Inl ValueError
         else if take 2 url2 = ''//'' \<and> CHR ''['' \<in> set netloc \<and> CHR '']'' \<in> set netloc
                 \<and> \<not> check_bracketed_host lib (bracketed_host netloc)
         then Inl ValueError
         else
           (let (url4, fragment) =
                  (if CHR ''#'' \<in> set url3 then split_first CHR ''#'' url3 else (url3, ''''));
                (url5, query) =
                  (if CHR ''?'' \<in> set url4 then split_first CHR ''?'' url4 else (url4, ''''))
            in if \<not> checknetloc lib netloc then Inl ValueError
               else Inr (scheme, netloc, url5, query, fragment)))"

text \<open>
  \<open>_splitparams(url)\<close>: the parameters follow the first semicolon of the last path
  segment. (\<open>urlparse\<close> calls it for a URL with a semicolon only; Python's result for
  one without, \<open>url[:-1]\<close> and \<open>url\<close>, is written out in the last case.)
\<close>

definition splitparams :: "string \<Rightarrow> string \<times> string" where
  "splitparams url =
     (if CHR ''/'' \<in> set url then
        (case find_char_from CHR '';'' url (case rfind_char CHR ''/'' url of Some k \<Rightarrow> k | None \<Rightarrow> 0) of
           None \<Rightarrow> (url, '''')
         | Some i \<Rightarrow> (take i url, drop (Suc i) url))
      else
        (case find_char CHR '';'' url of
           Some i \<Rightarrow> (take i url, drop (Suc i) url)
         | None \<Rightarrow> (butlast url, url)))"

record parse_result =
  scheme :: string
  netloc :: string
  path :: string
  params :: string
  query :: string
  fragment :: string

definition urlparse :: "stdlib \<Rightarrow> string \<Rightarrow> exn + parse_result" where
  "urlparse lib url =
     (case urlsplit lib url of
        Inl e \<Rightarrow> Inl e
      | Inr (sch, loc, url1, qry, frag) \<Rightarrow>
          (let (url2, prm) =
                 (if sch \<in> set uses_params \<and> CHR '';'' \<in> set url1 then splitparams url1
                  else (url1, ''''))
           in Inr \<lparr>scheme = sch, netloc = loc, path = url2, params = prm, query = qry,
                    fragment = frag\<rparr>))"

definition urlunsplit :: "string \<Rightarrow> string \<Rightarrow> string \<Rightarrow> string \<Rightarrow> string \<Rightarrow> string" where
  "urlunsplit sch loc url qry frag =
     (let url1 = (if loc \<noteq> [] \<or> (sch \<noteq> [] \<and> sch \<in> set uses_netloc) \<or> take 2 url = ''//''
                  then ''//'' @ loc @ (if url \<noteq> [] \<and> take 1 url \<noteq> ''/'' then ''/'' @ url else url)
                  else url);
          url2 = (if sch \<noteq> [] then sch @ '':'' @ url1 else url1);
          url3 = (if qry \<noteq> [] then url2 @ ''?'' @ qry else url2)
      in if frag \<noteq> [] then url3 @ ''#'' @ frag else url3)"

definition urlunparse :: "parse_result \<Rightarrow> string" where
  "urlunparse p =
     urlunsplit (scheme p) (netloc p)
       (if params p \<noteq> [] then path p @ '';'' @ params p else path p) (query p) (fragment p)"

definition geturl :: "parse_result \<Rightarrow> string" where
  "geturl p = urlunparse p"

subsection \<open>normalize\_url\<close>

definition normalize_url :: "stdlib \<Rightarrow> string \<Rightarrow> exn + string" where
  "normalize_url lib url =
     (let url1 = (if \<not> str_contains url ''://'' then ''http://'' @ url else url)
      in case urlparse lib url1 of
           Inl e \<Rightarrow> Inl e
         | Inr p \<Rightarrow>
             (let netloc1 = str_replace ''www.'' '''' (netloc p);
                  path1 = fst (split_first CHR ''?'' (path p))
              in Inr (geturl \<lparr>scheme = scheme p, netloc = netloc1, path = path1, params = '''',
                               query = '''', fragment = ''''\<rparr>)))"

subsection \<open>Shapes of the parts of a URL\<close>

text \<open>
  The characters that \<open>_splitnetloc\<close> keeps in the host (it stops at \<open>/\<close>, \<open>?\<close> and
  \<open>#\<close>), and the schemes that \<open>urlsplit\<close> recognises: a letter followed by scheme
  characters, in lower case.
\<close>

definition netloc_char :: "char \<Rightarrow> bool" where
  "netloc_char c = (c \<noteq> CHR ''/'' \<and> c \<noteq> CHR ''?'' \<and> c \<noteq> CHR ''#'')"

definition scheme_wf :: "string \<Rightarrow> bool" where
  "scheme_wf s = (s \<noteq> [] \<and> is_alpha (hd s) \<and> (\<forall>c \<in> set s. c \<in> set scheme_chars) \<and> str_lower s = s)"

section \<open>Observations on the history\<close>

text \<open>
  What the properties below read off the history: which events are requests of the
  session, which are index requests, which are runs of the language detector, and the
  language a strategy was called with. \<open>reuses_language lang evs\<close>: no detection
  in \<open>evs\<close>, and every strategy called there was given \<open>lang\<close>. \<open>index_urls\<close>
  is a caller that indexes one URL after the other with the same indexer, whatever each
  call returns or raises. \<open>long_title\<close>: a title element of more than 20 characters.
\<close>

definition long_title :: "element \<Rightarrow> bool" where
  "long_title x = (el_type x = Title \<and> length (el_str x) > 20)"

fun is_http :: "event \<Rightarrow> bool" where
  "is_http (Http c out) = True"
| "is_http e = False"

fun is_detect :: "event \<Rightarrow> bool" where
  "is_detect (Detect t out) = True"
| "is_detect e = False"

fun strategy_language :: "event \<Rightarrow> string option" where
  "strategy_language (CallGoose3 lang) = Some lang"
| "strategy_language (CallJusText lang) = Some lang"
| "strategy_language e = None"

definition strategy_calls :: "string \<Rightarrow> event set" where
  "strategy_calls lang = {CallGoose3 lang, CallJusText lang}"

fun is_index_post :: "event \<Rightarrow> bool" where
  "is_index_post (Http (PostIndex ep hs request) out) = True"
| "is_index_post e = False"

definition reuses_language :: "string \<Rightarrow> event list \<Rightarrow> bool" where
  "reuses_language lang evs =
     (filter is_detect evs = [] \<and>
      (\<forall>e \<in> set evs. strategy_language e = None \<or> strategy_language e = Some lang))"

definition detections :: "world \<Rightarrow> nat" where
  "detections tr = length (filter is_detect tr)"

text \<open>
  A detection that was answered with the empty string, which \<open>detect_language\<close>
  returns as it is, and their number in a history.
\<close>

fun is_empty_answer :: "event \<Rightarrow> bool" where
  "is_empty_answer (Detect t out) = (out = Inr (Some ''''))"
| "is_empty_answer e = False"

definition empty_answers :: "world \<Rightarrow> nat" where
  "empty_answers tr = length (filter is_empty_answer tr)"


section \<open>Concrete runs\<close>

definition ex_self :: indexer where
  "ex_self = Indexer_init ''api.example.io'' ''c1'' 7 ''key'' True"

definition ex_self_noreindex :: indexer where
  "ex_self_noreindex = Indexer_init ''api.example.io'' ''c1'' 7 ''key'' False"

definition ex_response :: "int \<Rightarrow> string \<Rightarrow> response" where
  "ex_response st code =
     \<lparr>status_code = st, reason = '''', body_text = '''', content = '''', headers = Map.empty,
      json_body = Inr (PyDict [(''status'', PyDict [(''code'', PyStr code)])])\<rparr>"

definition ex_document :: pydict where
  "ex_document = [(''documentId'', PyStr ''doc-1''), (''section'', PyList [])]"

text \<open>
  A world in which every request is answered with HTTP 200 and the status OK, every file
  exists, every page is empty and every library returns an empty result.
\<close>

definition ex_env_base :: env where
  "ex_env_base =
     \<lparr>http = (\<lambda>tr c. Inr (ex_response 200 ''OK'')),
      json_text = (\<lambda>v. ''{}''), path_exists = (\<lambda>f. True), open_file = (\<lambda>f. None),
      browser_goto = (\<lambda>tr url ms. Inr (url, '''')), browser_close = (\<lambda>tr. None),
      browser_connected = (\<lambda>tr. True), browser_launch = (\<lambda>tr. None),
      write_file = (\<lambda>name data. None), partition_file = (\<lambda>data. Inr []),
      decode_utf8 = (\<lambda>data. Inr data), rst_to_html = (\<lambda>src. Inr src),
      markdown_to_html = (\<lambda>src. Inr src), notebook_to_html = (\<lambda>src. Inr src),
      soup_get_text = (\<lambda>html. Inr html), soup_body_text = (\<lambda>html. Inr (Some html)),
      soup_title = (\<lambda>html. Inr None), detect = (\<lambda>tr text. Inr (Some ''en'')),
      goose_extract = (\<lambda>cls url html. Inr ('''', Some '''')),
      justext_paragraphs = (\<lambda>stoplist html. Inr [(html, False)]),
      slugify = (\<lambda>url. url)\<rparr>"

text \<open>A remote that holds \<open>doc-1\<close> and keeps reporting it, whatever is deleted.\<close>

definition ex_env_exists :: env where
  "ex_env_exists =
     ex_env_base\<lparr>http := (\<lambda>tr c. case c of
                 PostIndex ep hs req \<Rightarrow> Inr (ex_response 200 ''ALREADY_EXISTS'')
               | PostDeleteDoc ep hs b \<Rightarrow> Inr (ex_response 200 ''OK'')
               | _ \<Rightarrow> Inr (ex_response 404 ''''))\<rparr>"

text \<open>The same remote behind a connection that breaks on the delete request.\<close>

definition ex_env_delete_fails :: env where
  "ex_env_delete_fails =
     ex_env_base\<lparr>http := (\<lambda>tr c. case c of
                 PostIndex ep hs req \<Rightarrow> Inr (ex_response 200 ''ALREADY_EXISTS'')
               | PostDeleteDoc ep hs b \<Rightarrow> Inl RequestException
               | _ \<Rightarrow> Inr (ex_response 404 ''''))\<rparr>"

definition ex_conflict :: response where
  "ex_conflict =
     \<lparr>status_code = 409, reason = ''Conflict'', body_text = '''', content = '''', headers = Map.empty,
      json_body = Inr (PyDict [(''details'', PyStr ''document id 'f1' exists'')])\<rparr>"

text \<open>An upload endpoint that reports a duplicate and then refuses the second upload.\<close>

definition ex_env_upload :: env where
  "ex_env_upload =
     ex_env_base\<lparr>http := (\<lambda>tr c. case c of
                 PostUpload ep cu co dedup uri fn md hs \<Rightarrow>
                   if dedup then Inr ex_conflict else Inr (ex_response 500 '''')
               | _ \<Rightarrow> Inr (ex_response 200 ''OK''))\<rparr>"

definition ex_segments_request :: pyval where
  "ex_segments_request =
     index_request ex_self
       [(''documentId'', PyStr ''d''), (''title'', PyStr ''t''),
        (''section'', PyList [PyDict [(''text'', PyStr ''a''), (''metadataJson'', PyStr ''{}'')],
                              PyDict [(''text'', PyStr ''b''), (''metadataJson'', PyStr ''{}'')]])]"

definition ex_page :: "int \<Rightarrow> string \<Rightarrow> string \<Rightarrow> response" where
  "ex_page st ct body =
     \<lparr>status_code = st, reason = '''', body_text = body, content = body,
      headers = [''Content-Type'' \<mapsto> ct], json_body = Inl JSONDecodeError\<rparr>"

text \<open>A site that answers the probe of a page and has lost the page itself.\<close>

definition ex_env_gone :: env where
  "ex_env_gone =
     ex_env_base\<lparr>http := (\<lambda>tr c. case c of
                 GetUrl u hs t \<Rightarrow>
                   if hs = [] then Inr (ex_page 404 ''text/html'' '''')
                   else Inr (ex_page 200 ''text/plain'' '''')
               | _ \<Rightarrow> Inr (ex_response 200 ''OK''))\<rparr>"

text \<open>A site that serves a PDF with the given elements.\<close>

definition ex_env_pdf :: "element list \<Rightarrow> env" where
  "ex_env_pdf elements =
     ex_env_base\<lparr>http := (\<lambda>tr c. case c of
                 GetUrl u hs t \<Rightarrow> Inr (ex_page 200 ''application/pdf'' ''%PDF'')
               | _ \<Rightarrow> Inr (ex_response 200 ''OK'')),
       partition_file := (\<lambda>data. Inr elements)\<rparr>"

definition ex_report :: "element list" where
  "ex_report = [Element Title ''Report'', Element NarrativeText ''Body text over ten chars'']"

definition ex_site :: "string \<Rightarrow> string \<Rightarrow> env" where
  "ex_site ct body =
     ex_env_base\<lparr>http := (\<lambda>tr c. case c of
                 GetUrl u hs t \<Rightarrow> Inr (ex_page 200 ct body)
               | _ \<Rightarrow> Inr (ex_response 200 ''OK'')),
       browser_goto := (\<lambda>tr url ms. Inr (url, body))\<rparr>"

definition ex_two_pages :: "element list" where
  "ex_two_pages = [Element NarrativeText ''page one'', Element NarrativeText ''page two'']"

text \<open>A standard library that accepts no bracketed host and normalises nothing.\<close>

definition ex_lib :: stdlib where
  "ex_lib = \<lparr>ip_address_v6 = (\<lambda>h. False), nfkc = (\<lambda>s. s)\<rparr>"

section \<open>Properties of the submission step\<close>

lemma delete_doc_events:
  "delete_doc env self d tr = (res, tr') \<Longrightarrow>
     tr' = tr \<or> (\<exists>b out. tr' = tr @ [Http (PostDeleteDoc (endpoint self) (post_headers self) b) out])"
  by (auto simp: delete_doc_def session_request_def Let_def split: sum.splits if_splits)

lemma index_document_posts:
  assumes "index_document env self document tr = (res, tr')"
    and "Http (PostIndex ep hs request) out \<in> set (drop (length tr) tr')"
  shows "request = index_request self document"
  using assms
  by (auto simp: index_document_def session_request_def Let_def
       split: sum.splits if_splits option.splits bool.splits prod.splits dest!: delete_doc_events)

lemma map_exn_length: "map_exn f xs = Inr ys \<Longrightarrow> length ys = length xs"
  by (induction xs arbitrary: ys) (auto split: sum.splits)

lemma map_exn_nth: "map_exn f xs = Inr ys \<Longrightarrow> i < length xs \<Longrightarrow> f (xs ! i) = Inr (ys ! i)"
  by (induction xs arbitrary: ys i) (auto split: sum.splits simp: nth_Cons split: nat.splits)

lemma segments_section_text:
  "segments_section env (p, md) = Inr v \<Longrightarrow> py_getitem v ''text'' = Inr (PyStr p)"
  by (auto simp: segments_section_def bind_exn_def split: sum.splits)

lemma segments_document_sections:
  assumes "segments_document env doc_id parts metadatas doc_metadata title = Inr document"
  shows "\<exists>sections. map_of document ''section'' = Some (PyList sections)
           \<and> length sections = min (length parts) (length metadatas)
           \<and> (\<forall>i < length sections. py_getitem (sections ! i) ''text'' = Inr (PyStr (parts ! i)))"
proof -
  from assms obtain sections where
    m: "map_exn (segments_section env) (zip parts metadatas) = Inr sections"
    and d: "map_of document ''section'' = Some (PyList sections)"
    by (auto simp: segments_document_def bind_exn_def Let_def split: sum.splits if_splits)
  have len: "length sections = min (length parts) (length metadatas)"
    using map_exn_length[OF m] by simp
  have "py_getitem (sections ! i) ''text'' = Inr (PyStr (parts ! i))" if "i < length sections" for i
  proof -
    from that len have i: "i < length (zip parts metadatas)" by simp
    from map_exn_nth[OF m i] i
    have "segments_section env (parts ! i, metadatas ! i) = Inr (sections ! i)" by simp
    then show ?thesis by (rule segments_section_text)
  qed
  with d len show ?thesis by blast
qed

lemma already_exists_code:
  assumes "py_getitem result ''status'' = Inr st" "py_getitem st ''code'' = Inr (PyStr c)"
    "str_contains c ''ALREADY_EXISTS''"
  shows "already_exists result = Inr True"
proof -
  from assms(1) obtain kvs where r: "result = PyDict kvs" "map_of kvs ''status'' = Some st"
    by (cases result) (auto split: option.splits)
  from assms(2) obtain kvs' where s: "st = PyDict kvs'" "map_of kvs' ''code'' = Some (PyStr c)"
    by (cases st) (auto split: option.splits)
  from s have "kvs' \<noteq> []" by auto
  with r s assms(3) show ?thesis
    by (simp add: already_exists_def bind_exn_def)
qed

lemma already_exists_conflict:
  assumes "py_getitem result ''status'' = Inr st" "py_getitem st ''code'' = Inr (PyStr c)"
    "str_contains c ''CONFLICT''" "py_getitem st ''statusDetail'' = Inr (PyStr d)"
    "str_contains d ''Indexing doesn't support updating documents''"
  shows "already_exists result = Inr True"
proof -
  from assms(1) obtain kvs where r: "result = PyDict kvs" "map_of kvs ''status'' = Some st"
    by (cases result) (auto split: option.splits)
  from assms(2) obtain kvs' where s: "st = PyDict kvs'" "map_of kvs' ''code'' = Some (PyStr c)"
    by (cases st) (auto split: option.splits)
  from s have "kvs' \<noteq> []" by auto
  with r s assms(3-5) show ?thesis
    by (simp add: already_exists_def bind_exn_def split: option.splits)
qed

lemma serializable_doc_id:
  assumes "json_serializable (index_request self document)"
    and "dict_getitem document ''documentId'' = Inr doc_id"
  shows "json_serializable doc_id"
proof -
  from assms(2) have "map_of document ''documentId'' = Some doc_id"
    by (simp add: dict_getitem_def split: option.splits)
  then have "(''documentId'', doc_id) \<in> set document" by (rule map_of_SomeD)
  then have "doc_id \<in> snd ` set document" by force
  with assms(1) show ?thesis by (auto simp: index_request_def)
qed

lemma ex_http_index [simp]:
  "http ex_env_exists tr (PostIndex ep hs req) = Inr (ex_response 200 ''ALREADY_EXISTS'')"
  by (simp add: ex_env_exists_def)

lemma ex_http_delete [simp]:
  "http ex_env_exists tr (PostDeleteDoc ep hs b) = Inr (ex_response 200 ''OK'')"
  by (simp add: ex_env_exists_def)

lemma ex_response_sel [simp]:
  "status_code (ex_response st code) = st"
  "json_body (ex_response st code) = Inr (PyDict [(''status'', PyDict [(''code'', PyStr code)])])"
  by (simp_all add: ex_response_def)

lemma ex_document_id [simp]: "dict_getitem ex_document ''documentId'' = Inr (PyStr ''doc-1'')"
  by (simp add: ex_document_def dict_getitem_def)

lemma ex_document_serializable [simp]: "json_serializable (index_request self ex_document)"
  by (simp add: ex_document_def index_request_def)

lemma ex_reindex [simp]: "reindex ex_self" "\<not> reindex ex_self_noreindex"
  by (simp_all add: ex_self_def ex_self_noreindex_def Indexer_init_def)

text \<open>
  C1, as amended. When the first submission of a document that has a \<open>documentId\<close> is
  answered with HTTP 200 and a status whose code contains ALREADY_EXISTS (or contains
  CONFLICT, with the detail "Indexing doesn't support updating documents"), reindexing is
  enabled, and the delete request and the resubmission are each answered with a response
  (\<open>r2\<close> and \<open>r3\<close>, of any status and body), then \<open>index_document\<close> sends exactly the
  delete request for that \<open>documentId\<close> and then exactly one resubmission of the same
  request, and returns \<open>True\<close>.
\<close>

theorem index_document_reindex:
  assumes "reindex self"
    and "json_serializable (index_request self document)"
    and "dict_getitem document ''documentId'' = Inr doc_id"
    and "http env tr (index_call self document) = Inr r"
    and "status_code r = 200"
    and "json_body r = Inr result"
    and "py_getitem result ''status'' = Inr st"
    and "py_getitem st ''code'' = Inr (PyStr c)"
    and "str_contains c ''ALREADY_EXISTS'' \<or>
         (str_contains c ''CONFLICT'' \<and> py_getitem st ''statusDetail'' = Inr (PyStr d) \<and>
          str_contains d ''Indexing doesn't support updating documents'')"
    and "http env (tr @ [Http (index_call self document) (Inr r)]) (delete_call self doc_id) = Inr r2"
    and "http env (tr @ [Http (index_call self document) (Inr r),
                         Http (delete_call self doc_id) (Inr r2)]) (index_call self document) = Inr r3"
  shows "index_document env self document tr =
           (Inr True, tr @ [Http (index_call self document) (Inr r),
                            Http (delete_call self doc_id) (Inr r2),
                            Http (index_call self document) (Inr r3)])"
proof -
  have ae: "already_exists result = Inr True"
    using assms(7-9) already_exists_code already_exists_conflict by blast
  have sd: "json_serializable doc_id"
    using assms(2,3) by (rule serializable_doc_id)
  have del: "delete_doc env self doc_id (tr @ [Http (index_call self document) (Inr r)]) =
          (Inr (status_code r2 = 200),
           tr @ [Http (index_call self document) (Inr r), Http (delete_call self doc_id) (Inr r2)])"
    using sd assms(10)
    by (simp add: delete_doc_def session_request_def json_dumps_def delete_call_def Let_def)
  show ?thesis
    using assms(1-6) ae assms(11) del
    by (simp add: index_document_def session_request_def json_dumps_def Let_def
        index_call_def[symmetric])
qed

theorem index_document_reindex_witness:
  "reindex ex_self \<and>
   index_document ex_env_exists ex_self ex_document [] =
     (Inr True, [Http (index_call ex_self ex_document) (Inr (ex_response 200 ''ALREADY_EXISTS'')),
                 Http (delete_call ex_self (PyStr ''doc-1'')) (Inr (ex_response 200 ''OK'')),
                 Http (index_call ex_self ex_document) (Inr (ex_response 200 ''ALREADY_EXISTS''))])"
proof -
  have st: "py_getitem (PyDict [(''status'', PyDict [(''code'', PyStr ''ALREADY_EXISTS'')])]) ''status''
              = Inr (PyDict [(''code'', PyStr ''ALREADY_EXISTS'')])" by simp
  have code: "py_getitem (PyDict [(''code'', PyStr ''ALREADY_EXISTS'')]) ''code''
              = Inr (PyStr ''ALREADY_EXISTS'')"
    by simp
  have c: "str_contains ''ALREADY_EXISTS'' ''ALREADY_EXISTS'' \<or>
         (str_contains ''ALREADY_EXISTS'' ''CONFLICT'' \<and>
          py_getitem (PyDict [(''code'', PyStr ''ALREADY_EXISTS'')]) ''statusDetail'' = Inr (PyStr '''') \<and>
          str_contains '''' ''Indexing doesn't support updating documents'')" by simp
  from index_document_reindex[where env = ex_env_exists and tr = "[]",
      OF ex_reindex(1) ex_document_serializable ex_document_id _ _ _ st code c]
  have "index_document ex_env_exists ex_self ex_document [] =
     (Inr True, [] @ [Http (index_call ex_self ex_document) (Inr (ex_response 200 ''ALREADY_EXISTS'')),
                 Http (delete_call ex_self (PyStr ''doc-1'')) (Inr (ex_response 200 ''OK'')),
                 Http (index_call ex_self ex_document) (Inr (ex_response 200 ''ALREADY_EXISTS''))])"
    by (simp add: index_call_def delete_call_def)
  then show ?thesis by simp
qed

text \<open>
  C1 as stated fails: the first submission is answered with HTTP 200 and ALREADY_EXISTS
  and reindexing is enabled, but the delete request raises in the session. The exception
  leaves \<open>delete_doc\<close> and \<open>index_document\<close>: nothing is resubmitted and no value is
  returned.
\<close>

theorem index_document_reindex_counterexample:
  "reindex ex_self \<and>
   http ex_env_delete_fails [] (index_call ex_self ex_document)
     = Inr (ex_response 200 ''ALREADY_EXISTS'') \<and>
   index_document ex_env_delete_fails ex_self ex_document [] =
     (Inl RequestException,
      [Http (index_call ex_self ex_document) (Inr (ex_response 200 ''ALREADY_EXISTS'')),
       Http (delete_call ex_self (PyStr ''doc-1'')) (Inl RequestException)])"
  by (simp add: ex_self_def Indexer_init_def ex_response_def ex_document_def
      ex_env_delete_fails_def ex_env_base_def index_call_def delete_call_def
      index_document_def delete_doc_def session_request_def json_dumps_def
      index_request_def post_headers_def already_exists_def dict_getitem_def bind_exn_def Let_def)

text \<open>
  C8. With reindexing disabled, when the submission of a document (one that has a
  \<open>documentId\<close>) is answered with HTTP 200 and a status whose code contains
  ALREADY_EXISTS, \<open>index_document\<close> returns \<open>False\<close> and the only request it has sent
  is that submission: no delete request, no resubmission.
\<close>

theorem index_document_no_reindex:
  assumes "\<not> reindex self"
    and "json_serializable (index_request self document)"
    and "dict_getitem document ''documentId'' = Inr doc_id"
    and "http env tr (index_call self document) = Inr r"
    and "status_code r = 200"
    and "json_body r = Inr result"
    and "py_getitem result ''status'' = Inr st"
    and "py_getitem st ''code'' = Inr (PyStr c)"
    and "str_contains c ''ALREADY_EXISTS''"
  shows "index_document env self document tr =
           (Inr False, tr @ [Http (index_call self document) (Inr r)])"
  using assms(1-6) already_exists_code[OF assms(7-9)]
  by (simp add: index_document_def session_request_def json_dumps_def log_document_id_def Let_def
      index_call_def)

theorem index_document_no_reindex_witness:
  "\<not> reindex ex_self_noreindex \<and>
   index_document ex_env_exists ex_self_noreindex ex_document [] =
     (Inr False, [Http (index_call ex_self_noreindex ex_document)
                    (Inr (ex_response 200 ''ALREADY_EXISTS''))])"
proof -
  have st: "py_getitem (PyDict [(''status'', PyDict [(''code'', PyStr ''ALREADY_EXISTS'')])]) ''status''
              = Inr (PyDict [(''code'', PyStr ''ALREADY_EXISTS'')])" by simp
  have code: "py_getitem (PyDict [(''code'', PyStr ''ALREADY_EXISTS'')]) ''code''
              = Inr (PyStr ''ALREADY_EXISTS'')"
    by simp
  have c: "str_contains ''ALREADY_EXISTS'' ''ALREADY_EXISTS''" by simp
  from index_document_no_reindex[where env = ex_env_exists and tr = "[]",
      OF ex_reindex(2) ex_document_serializable ex_document_id _ _ _ st code c]
  have "index_document ex_env_exists ex_self_noreindex ex_document [] =
     (Inr False, [] @ [Http (index_call ex_self_noreindex ex_document)
                         (Inr (ex_response 200 ''ALREADY_EXISTS''))])"
    by (simp add: index_call_def)
  then show ?thesis by simp
qed

lemma index_segments_posts:
  assumes "index_segments env self doc_id parts metadatas doc_metadata title tr = (res, tr')"
    and "Http (PostIndex ep hs request) out \<in> set (drop (length tr) tr')"
  shows "\<exists>document sections. request = index_request self document
           \<and> map_of document ''section'' = Some (PyList sections)
           \<and> length sections = min (length parts) (length metadatas)
           \<and> (\<forall>i < length sections. py_getitem (sections ! i) ''text'' = Inr (PyStr (parts ! i)))"
proof (cases "segments_document env doc_id parts metadatas doc_metadata title")
  case (Inl e)
  with assms show ?thesis by (simp add: index_segments_def)
next
  case (Inr document)
  with assms have "index_document env self document tr = (res, tr')"
    by (simp add: index_segments_def)
  from index_document_posts[OF this assms(2)] segments_document_sections[OF Inr]
  show ?thesis by blast
qed

text \<open>
  C9. Every index request that \<open>index_segments\<close> sends carries the document it built,
  and that document's \<open>section\<close> list has exactly \<open>min (len parts) (len metadatas)\<close>
  entries, the \<open>i\<close>-th holding \<open>parts[i]\<close> as its text: parts beyond the metadatas are
  left out without an error.
\<close>

theorem index_segments_sections:
  assumes "index_segments env self doc_id parts metadatas doc_metadata title tr = (res, tr')"
    and "Http (PostIndex ep hs request) out \<in> set (drop (length tr) tr')"
  shows "\<exists>document sections. request = index_request self document
           \<and> map_of document ''section'' = Some (PyList sections)
           \<and> length sections = min (length parts) (length metadatas)
           \<and> (\<forall>i < length sections. py_getitem (sections ! i) ''text'' = Inr (PyStr (parts ! i)))"
  using assms by (rule index_segments_posts)

lemma ex_index_segments:
  "index_segments ex_env_upload ex_self (PyStr ''d'') [''a'', ''b'', ''c''] [[], []] [] (PyStr ''t'') [] =
     (Inr True, [Http (PostIndex (endpoint ex_self) (post_headers ex_self) ex_segments_request)
                   (Inr (ex_response 200 ''OK''))])"
  by (simp add: index_segments_def segments_document_def segments_section_def index_document_def
      ex_env_upload_def ex_env_base_def ex_self_def Indexer_init_def ex_response_def
      ex_segments_request_def
      session_request_def json_dumps_def index_request_def post_headers_def already_exists_def
      status_ok_def bind_exn_def Let_def)

theorem index_segments_sections_witness:
  "index_segments ex_env_upload ex_self (PyStr ''d'') [''a'', ''b'', ''c''] [[], []] [] (PyStr ''t'') [] =
     (Inr True, [Http (PostIndex (endpoint ex_self) (post_headers ex_self) ex_segments_request)
                   (Inr (ex_response 200 ''OK''))]) \<and>
   (\<exists>document sections. ex_segments_request = index_request ex_self document
       \<and> map_of document ''section'' = Some (PyList sections)
       \<and> length sections = 2
       \<and> (\<forall>i < length sections.
             py_getitem (sections ! i) ''text'' = Inr (PyStr ([''a'', ''b'', ''c''] ! i))))"
proof -
  have m: "Http (PostIndex (endpoint ex_self) (post_headers ex_self) ex_segments_request)
             (Inr (ex_response 200 ''OK''))
           \<in> set (drop (length ([]::world))
                  [Http (PostIndex (endpoint ex_self) (post_headers ex_self) ex_segments_request)
                     (Inr (ex_response 200 ''OK''))])"
    by simp
  from index_segments_sections[OF ex_index_segments m] ex_index_segments
  show ?thesis by (simp add: numeral_2_eq_2)
qed

text \<open>
  C4. When \<open>index_file\<close>, with reindexing enabled, has sent the upload, got HTTP 409,
  and the second upload that follows the delete was answered with a status other than
  200, the value it returns is \<open>True\<close>.
\<close>

theorem index_file_lenient:
  assumes "index_file env self filename uri metadata tr = (res, tr')"
    and "reindex self"
    and "tr' = tr @ [Http (upload_call self True uri filename md) (Inr r1), ev,
                     Http (upload_call self False uri filename md) (Inr r3)]"
    and "status_code r1 = 409"
    and "status_code r3 \<noteq> 200"
  shows "res = Inr True"
  using assms
  by (auto simp: index_file_def session_request_def upload_call_def Let_def
      split: sum.splits if_splits option.splits prod.splits dest!: delete_doc_events)

lemma ex_index_file:
  "index_file ex_env_upload ex_self ''f.pdf'' ''http://x/f.pdf'' [] [] =
     (Inr True, [Http (upload_call ex_self True ''http://x/f.pdf'' ''f.pdf'' ''{}'') (Inr ex_conflict),
                 Http (delete_call ex_self (PyStr ''f1'')) (Inr (ex_response 200 ''OK'')),
                 Http (upload_call ex_self False ''http://x/f.pdf'' ''f.pdf'' ''{}'')
                   (Inr (ex_response 500 ''''))])"
  by (simp add: index_file_def ex_env_upload_def ex_env_base_def ex_self_def Indexer_init_def ex_conflict_def
      ex_response_def session_request_def json_dumps_def conflict_doc_id_def bind_exn_def
      py_split_def list_index_def str_split.simps delete_doc_def upload_call_def delete_call_def post_headers_def
      Let_def)

theorem index_file_lenient_witness:
  "reindex ex_self \<and> status_code ex_conflict = 409 \<and> status_code (ex_response 500 '''') \<noteq> 200 \<and>
   fst (index_file ex_env_upload ex_self ''f.pdf'' ''http://x/f.pdf'' [] []) = Inr True"
proof -
  have s1: "status_code ex_conflict = 409" by (simp add: ex_conflict_def)
  have s3: "status_code (ex_response 500 '''') \<noteq> 200" by simp
  have run: "index_file ex_env_upload ex_self ''f.pdf'' ''http://x/f.pdf'' [] [] =
      (fst (index_file ex_env_upload ex_self ''f.pdf'' ''http://x/f.pdf'' [] []),
       snd (index_file ex_env_upload ex_self ''f.pdf'' ''http://x/f.pdf'' [] []))" by simp
  have tr: "snd (index_file ex_env_upload ex_self ''f.pdf'' ''http://x/f.pdf'' [] []) =
      [] @ [Http (upload_call ex_self True ''http://x/f.pdf'' ''f.pdf'' ''{}'') (Inr ex_conflict),
            Http (delete_call ex_self (PyStr ''f1'')) (Inr (ex_response 200 ''OK'')),
            Http (upload_call ex_self False ''http://x/f.pdf'' ''f.pdf'' ''{}'')
              (Inr (ex_response 500 ''''))]"
    by (simp add: ex_index_file)
  from index_file_lenient[OF run ex_reindex(1) tr s1 s3] s1 s3 show ?thesis by simp
qed

section \<open>Properties of URL crawling\<close>

lemmas url_defs = index_url_def index_url_extract_def index_url_pdf_def index_url_markup_def
  index_url_html_def is_pdf_def is_markup_def ends_with_def raise_for_status_def
  session_request_def bind_exn_def Let_def

text \<open>
  C2 fails on the Markdown, RST and notebook branch: the probe of a \<open>.md\<close> URL is
  answered with HTTP 200, the download with HTTP 404, and the \<open>HTTPError\<close> of
  \<open>raise_for_status\<close> leaves \<open>index_url\<close>, where the PDF branch and the rendered
  branch would have returned \<open>False\<close>.
\<close>

theorem index_url_markup_raises:
  "index_url ex_env_gone ''https://example.com/README.md'' [] (ex_self, []) =
     (Inl HTTPError, ex_self,
      [Http (GetUrl ''https://example.com/README.md'' probe_headers 30)
          (Inr (ex_page 200 ''text/plain'' '''')),
       Http (GetUrl ''https://example.com/README.md'' [] 30)
          (Inr (ex_page 404 ''text/html'' ''''))])"
  by (simp add: url_defs ex_env_gone_def ex_env_base_def ex_page_def ex_self_def Indexer_init_def
      probe_headers_def)

text \<open>
  C5 as stated fails: for the elements Title "Report", NarrativeText "Body text over
  ten chars" the title that the PDF branch extracts is "unknown", not "Report".
\<close>

theorem pdf_title_counterexample:
  "partition_file (ex_env_pdf ex_report) ''%PDF'' = Inr ex_report \<and>
   fst (index_url_extract (ex_env_pdf ex_report) ''http://example.com/report.pdf'' (ex_self, [])) =
     Inr (Some (Extracted ''http://example.com/report.pdf'' [''Body text over ten chars'']
                 (Some ''unknown''))) \<and>
   ''unknown'' \<noteq> ''Report''"
  by (simp add: url_defs ex_env_pdf_def ex_env_base_def ex_page_def ex_self_def Indexer_init_def
      probe_headers_def ex_report_def pdf_parts_def pdf_title_def)

lemma filter_first:
  "filter P xs = [] \<longleftrightarrow> (\<forall>x \<in> set xs. \<not> P x)"
  "filter P xs = y # ys \<Longrightarrow> \<exists>i < length xs. xs ! i = y \<and> P y \<and> (\<forall>j < i. \<not> P (xs ! j))"
proof -
  show "filter P xs = [] \<longleftrightarrow> (\<forall>x \<in> set xs. \<not> P x)" by (simp add: filter_empty_conv)
  show "filter P xs = y # ys \<Longrightarrow> \<exists>i < length xs. xs ! i = y \<and> P y \<and> (\<forall>j < i. \<not> P (xs ! j))"
  proof (induction xs)
    case Nil
    then show ?case by simp
  next
    case (Cons x xs)
    show ?case
    proof (cases "P x")
      case True
      with Cons.prems have "x = y" by simp
      with True show ?thesis by (intro exI[of _ 0]) simp
    next
      case False
      with Cons obtain i where i: "i < length xs" "xs ! i = y" "P y" "\<forall>j < i. \<not> P (xs ! j)"
        by auto
      have "\<forall>j < Suc i. \<not> P ((x # xs) ! j)"
        using False i(4) by (auto simp: nth_Cons split: nat.splits)
      with i show ?thesis by (intro exI[of _ "Suc i"]) simp
    qed
  qed
qed

lemma pdf_title_first:
  "(\<exists>i < length elements. long_title (elements ! i) \<and> (\<forall>j < i. \<not> long_title (elements ! j))
       \<and> pdf_title elements = el_str (elements ! i))
   \<or> ((\<forall>x \<in> set elements. \<not> long_title x) \<and> pdf_title elements = ''unknown'')"
proof (cases "filter long_title elements")
  case Nil
  then have "\<forall>x \<in> set elements. \<not> long_title x" by (simp add: filter_empty_conv)
  moreover from Nil have "pdf_title elements = ''unknown''"
    by (simp add: pdf_title_def long_title_def[abs_def])
  ultimately show ?thesis by blast
next
  case (Cons y ys)
  from filter_first(2)[OF Cons] obtain i where
    i: "i < length elements" "elements ! i = y" "long_title y" "\<forall>j < i. \<not> long_title (elements ! j)"
    by blast
  from Cons have "pdf_title elements = el_str y"
    by (simp add: pdf_title_def long_title_def[abs_def])
  with i show ?thesis by blast
qed

text \<open>
  C5, as amended. When the probe sends a URL to the PDF branch and the download, the
  write and the partition succeed, the extraction gives the texts of the elements that
  are not titles, in order, as the parts; its title is the text of the first title
  element of more than 20 characters, and "unknown" when there is none. For the two
  elements of the claim that is the part "Body text over ten chars" and the title
  "unknown" (the witness).
\<close>

theorem pdf_extraction:
  assumes "http env tr (GetUrl url probe_headers (timeout self)) = Inr r"
    and "status_code r = 200"
    and "headers r ''Content-Type'' = Some ct"
    and "is_pdf ct url"
    and "http env (tr @ [Http (GetUrl url probe_headers (timeout self)) (Inr r)])
           (GetUrl url [] (timeout self)) = Inr r2"
    and "raise_for_status r2 = None"
    and "write_file env ''tmp.pdf'' (content r2) = None"
    and "partition_file env (content r2) = Inr elements"
  shows "\<exists>title. fst (index_url_extract env url (self, tr)) =
            Inr (Some (Extracted url (map el_str (filter (\<lambda>t. el_type t \<noteq> Title) elements))
                        (Some title)))
         \<and> ((\<exists>i < length elements. long_title (elements ! i)
                  \<and> (\<forall>j < i. \<not> long_title (elements ! j)) \<and> title = el_str (elements ! i))
             \<or> ((\<forall>x \<in> set elements. \<not> long_title x) \<and> title = ''unknown''))"
proof -
  have "fst (index_url_extract env url (self, tr)) =
          Inr (Some (Extracted url (pdf_parts elements) (Some (pdf_title elements))))"
    using assms by (simp add: index_url_extract_def index_url_pdf_def session_request_def Let_def)
  with pdf_title_first[of elements] show ?thesis
    unfolding pdf_parts_def by blast
qed

lemma fetch_page:
  "fetch_content_with_timeout env url t tr = (Inr (au, html), tr1) \<Longrightarrow>
     \<exists>out. tr1 = tr @ [Browse url out] \<and> (out = Inr (au, html) \<or> html = '''')"
  by (auto simp: fetch_content_with_timeout_def Let_def split: sum.splits option.splits if_splits prod.splits)

lemma fetch_events:
  "fetch_content_with_timeout env url t tr = (x, tr1) \<Longrightarrow> \<exists>out. tr1 = tr @ [Browse url out]"
  by (auto simp: fetch_content_with_timeout_def Let_def split: sum.splits option.splits if_splits prod.splits)

lemma detect_language_events:
  "detect_language env b tr = (lang, tr1) \<Longrightarrow> tr1 = tr @ [Detect b (detect env tr b)]"
  by (auto simp: detect_language_def Let_def)

lemma get_content_and_title_events:
  "get_content_and_title env h u lang tr = (x, tr1) \<Longrightarrow>
     tr1 = tr @ [CallGoose3 lang] \<or> tr1 = tr @ [CallGoose3 lang, CallJusText lang]"
  by (auto simp: get_content_and_title_def Let_def split: sum.splits prod.splits if_splits)

lemma index_url_pdf_events:
  "index_url_pdf env self url tr = (x, tr1) \<Longrightarrow>
     \<exists>out. tr1 = tr @ [Http (GetUrl url [] (timeout self)) out]"
  by (auto simp: index_url_pdf_def session_request_def Let_def split: sum.splits option.splits prod.splits)

lemma index_url_markup_events:
  "index_url_markup env self url tr = (x, tr1) \<Longrightarrow>
     \<exists>out. tr1 = tr @ [Http (GetUrl url [] (timeout self)) out]"
  by (auto simp: index_url_markup_def session_request_def Let_def split: sum.splits option.splits prod.splits)

lemma index_url_markup_parts:
  "index_url_markup env self url tr = (Inr (Extracted u parts title), tr1) \<Longrightarrow> \<exists>text. parts = [text]"
  by (auto simp: index_url_markup_def session_request_def bind_exn_def Let_def
      split: sum.splits option.splits prod.splits if_splits)

lemma index_url_html_parts:
  "index_url_html env self url tr = (Some (Extracted u parts title), self2, tr1) \<Longrightarrow> \<exists>text. parts = [text]"
  by (auto simp: index_url_html_def Let_def
      split: sum.splits option.splits prod.splits if_splits)

lemma get_content_and_title_calls:
  "get_content_and_title env h u lang tr = (x, tr1) \<Longrightarrow>
     \<exists>evs. tr1 = tr @ evs \<and> set evs \<subseteq> strategy_calls lang"
  by (drule get_content_and_title_events) (auto simp: strategy_calls_def)

lemma index_url_html_events:
  assumes "index_url_html env self url tr = (x, self2, tr2)"
  shows "\<exists>out evs. tr2 = tr @ Browse url out # evs \<and>
           ((self2 = self \<and> set evs \<subseteq> strategy_calls (detected_language self))
            \<or> (detected_language self = '''' \<and>
                (\<exists>u html b evs'. out = Inr (u, html) \<and> soup_body_text env html = Inr (Some b) \<and>
                   evs = Detect b (detect env (tr @ [Browse url out]) b) # evs' \<and>
                   self2 = self\<lparr>detected_language := fst (detect_language env b (tr @ [Browse url out]))\<rparr> \<and>
                   set evs' \<subseteq> strategy_calls (detected_language self2))))"
proof -
  obtain y tr1 where f: "fetch_content_with_timeout env url 30 tr = (y, tr1)"
    by (cases "fetch_content_with_timeout env url 30 tr")
  from fetch_events[OF f] obtain out where tr1: "tr1 = tr @ [Browse url out]" by blast
  show ?thesis
  proof (cases y)
    case (Inl e)
    with assms f tr1 have "tr2 = tr @ Browse url out # []" "self2 = self"
      by (simp_all add: index_url_html_def)
    then show ?thesis by (intro exI[of _ out] exI[of _ "[]"]) simp
  next
    case (Inr p)
    obtain au html where p: "p = (au, html)" by (cases p)
    show ?thesis
    proof (cases "length html < 3")
      case True
      with assms f tr1 Inr p have "tr2 = tr @ Browse url out # []" "self2 = self"
        by (simp_all add: index_url_html_def)
      then show ?thesis by (intro exI[of _ out] exI[of _ "[]"]) simp
    next
      case long: False
      show ?thesis
      proof (cases "detected_language self = ''''")
        case False
        obtain z tr3 where g: "get_content_and_title env html au (detected_language self) tr1 = (z, tr3)"
          by (cases "get_content_and_title env html au (detected_language self) tr1")
        from get_content_and_title_calls[OF g] obtain evs where
          evs: "tr3 = tr1 @ evs" "set evs \<subseteq> strategy_calls (detected_language self)" by blast
        from assms f Inr p long False g have "tr2 = tr3" "self2 = self"
          by (auto simp: index_url_html_def split: sum.splits prod.splits)
        with evs tr1 show ?thesis by (intro exI[of _ out] exI[of _ evs]) simp
      next
        case empty: True
        show ?thesis
        proof (cases "soup_body_text env html")
          case (Inl e)
          with assms f tr1 Inr p long empty have "tr2 = tr @ Browse url out # []" "self2 = self"
            by (simp_all add: index_url_html_def)
          then show ?thesis by (intro exI[of _ out] exI[of _ "[]"]) simp
        next
          case body: (Inr bo)
          show ?thesis
          proof (cases bo)
            case None
            obtain z tr3 where g: "get_content_and_title env html au (detected_language self) tr1 = (z, tr3)"
              by (cases "get_content_and_title env html au (detected_language self) tr1")
            from get_content_and_title_calls[OF g] obtain evs where
              evs: "tr3 = tr1 @ evs" "set evs \<subseteq> strategy_calls (detected_language self)" by blast
            from assms f Inr p long empty body None g have "tr2 = tr3" "self2 = self"
              by (auto simp: index_url_html_def split: sum.splits prod.splits)
            with evs tr1 show ?thesis by (intro exI[of _ out] exI[of _ evs]) simp
          next
            case (Some b)
            obtain lang tr4 where d: "detect_language env b tr1 = (lang, tr4)"
              by (cases "detect_language env b tr1")
            from detect_language_events[OF d] have tr4: "tr4 = tr1 @ [Detect b (detect env tr1 b)]" .
            obtain z tr3 where g: "get_content_and_title env html au lang tr4 = (z, tr3)"
              by (cases "get_content_and_title env html au lang tr4")
            from get_content_and_title_calls[OF g] obtain evs where
              evs: "tr3 = tr4 @ evs" "set evs \<subseteq> strategy_calls lang" by blast
            from assms f Inr p long empty body Some d g
            have r: "tr2 = tr3" "self2 = self\<lparr>detected_language := lang\<rparr>"
              by (auto simp: index_url_html_def split: sum.splits prod.splits)
            from d have l: "lang = fst (detect_language env b tr1)" by simp
            from fetch_page[of env url 30 tr au html tr1] f Inr p tr1 long
            have o: "out = Inr (au, html)" by auto
            have "tr2 = tr @ Browse url out # (Detect b (detect env (tr @ [Browse url out]) b) # evs)"
              using r evs tr4 tr1 by simp
            moreover have "self2 = self\<lparr>detected_language := fst (detect_language env b (tr @ [Browse url out]))\<rparr>"
              using r l tr1 by simp
            moreover have "set evs \<subseteq> strategy_calls (detected_language self2)"
              using evs r by simp
            ultimately show ?thesis using empty o body Some by blast
          qed
        qed
      qed
    qed
  qed
qed

lemma delete_doc_http:
  "delete_doc env self d tr = (res, tr') \<Longrightarrow> \<exists>evs. tr' = tr @ evs \<and> (\<forall>e \<in> set evs. is_http e)"
  by (drule delete_doc_events) auto

lemma index_document_http:
  assumes "index_document env self document tr = (res, tr')"
  shows "\<exists>evs. tr' = tr @ evs \<and> (\<forall>e \<in> set evs. is_http e)"
  using assms
  by (auto simp: index_document_def session_request_def Let_def
      split: sum.splits if_splits option.splits bool.splits prod.splits dest!: delete_doc_events)

lemma index_segments_http:
  assumes "index_segments env self doc_id parts metadatas doc_metadata title tr = (res, tr')"
  shows "\<exists>evs. tr' = tr @ evs \<and> (\<forall>e \<in> set evs. is_http e)"
  using assms
  by (auto simp: index_segments_def split: sum.splits dest: index_document_http)

lemma session_request_eq:
  "session_request env tr c = (http env tr c, tr @ [Http c (http env tr c)])"
  by (simp add: session_request_def Let_def)

lemma strategy_calls_not_http: "e \<in> strategy_calls lang \<Longrightarrow> \<not> is_http e"
  by (auto simp: strategy_calls_def)

lemma index_url_html_no_http:
  assumes "index_url_html env self url tr = (x, self2, tr2)"
  shows "\<exists>evs. tr2 = tr @ evs \<and> (\<forall>e \<in> set evs. \<not> is_http e)"
proof -
  from index_url_html_events[OF assms] obtain out evs where
    tr2: "tr2 = tr @ Browse url out # evs" and
    evs: "(self2 = self \<and> set evs \<subseteq> strategy_calls (detected_language self))
            \<or> (\<exists>b d evs'. evs = Detect b d # evs' \<and>
                   set evs' \<subseteq> strategy_calls (detected_language self2))"
    by blast
  from evs have "\<forall>e \<in> set evs. \<not> is_http e"
  proof
    assume "self2 = self \<and> set evs \<subseteq> strategy_calls (detected_language self)"
    then show ?thesis using strategy_calls_not_http by blast
  next
    assume "\<exists>b d evs'. evs = Detect b d # evs' \<and>
                   set evs' \<subseteq> strategy_calls (detected_language self2)"
    then obtain b d evs' where "evs = Detect b d # evs'"
      "set evs' \<subseteq> strategy_calls (detected_language self2)" by blast
    then show ?thesis using strategy_calls_not_http by auto
  qed
  with tr2 show ?thesis by simp
qed

lemma not_http_not_index_post: "\<not> is_http e \<Longrightarrow> \<not> is_index_post e"
  by (cases e) auto

lemma index_url_extract_events:
  assumes "index_url_extract env url (self, tr) = (x, self2, tr2)"
  shows "\<exists>evs. tr2 = tr @ evs \<and> (\<forall>e \<in> set evs. \<not> is_index_post e)"
proof -
  let ?probe = "GetUrl url probe_headers (timeout self)"
  let ?tr1 = "tr @ [Http ?probe (http env tr ?probe)]"
  have none: "\<exists>evs. ?tr1 = tr @ evs \<and> (\<forall>e \<in> set evs. \<not> is_index_post e)" by simp
  show ?thesis
  proof (cases "http env tr ?probe")
    case (Inl e)
    with assms have "tr2 = ?tr1" by (auto simp: index_url_extract_def session_request_eq)
    with none show ?thesis by simp
  next
    case (Inr r)
    show ?thesis
    proof (cases "status_code r \<noteq> 200 \<or> headers r ''Content-Type'' = None")
      case True
      with assms Inr have "tr2 = ?tr1"
        by (auto simp: index_url_extract_def session_request_eq split: if_splits)
      with none show ?thesis by simp
    next
      case False
      then obtain ct where ct: "status_code r = 200" "headers r ''Content-Type'' = Some ct" by auto
      consider (pdf) "is_pdf ct url" | (markup) "\<not> is_pdf ct url" "is_markup url"
        | (html) "\<not> is_pdf ct url" "\<not> is_markup url" by blast
      then show ?thesis
      proof cases
        case pdf
        obtain y tr3 where p: "index_url_pdf env self url ?tr1 = (y, tr3)"
          by (cases "index_url_pdf env self url ?tr1")
        from index_url_pdf_events[OF p] obtain out where "tr3 = ?tr1 @ [Http (GetUrl url [] (timeout self)) out]"
          by blast
        moreover from assms Inr ct pdf p have "tr2 = tr3"
          by (auto simp: index_url_extract_def session_request_eq)
        ultimately show ?thesis by simp
      next
        case markup
        obtain y tr3 where p: "index_url_markup env self url ?tr1 = (y, tr3)"
          by (cases "index_url_markup env self url ?tr1")
        from index_url_markup_events[OF p] obtain out where "tr3 = ?tr1 @ [Http (GetUrl url [] (timeout self)) out]"
          by blast
        moreover from assms Inr ct markup p have "tr2 = tr3"
          by (auto simp: index_url_extract_def session_request_eq split: sum.splits)
        ultimately show ?thesis by simp
      next
        case html
        obtain y s3 tr3 where p: "index_url_html env self url ?tr1 = (y, s3, tr3)"
          by (cases "index_url_html env self url ?tr1")
        from index_url_html_no_http[OF p] obtain evs where
          "tr3 = ?tr1 @ evs" "\<forall>e \<in> set evs. \<not> is_index_post e"
          using not_http_not_index_post by blast
        moreover from assms Inr ct html p have "tr2 = tr3"
          by (auto simp: index_url_extract_def session_request_eq)
        ultimately show ?thesis by simp
      qed
    qed
  qed
qed

text \<open>A submission by \<open>index_url\<close> carries the parts of the extraction, one section each.\<close>

lemma index_url_posts:
  assumes run: "index_url env url metadata (self, tr) = (res, self', tr')"
    and post: "Http (PostIndex ep hs request) out \<in> set (drop (length tr) tr')"
  shows "\<exists>u parts title tr2 document sections.
           index_url_extract env url (self, tr) = (Inr (Some (Extracted u parts title)), self', tr2)
         \<and> request = index_request self' document
         \<and> map_of document ''section'' = Some (PyList sections)
         \<and> length sections = length parts
         \<and> (\<forall>i < length parts. py_getitem (sections ! i) ''text'' = Inr (PyStr (parts ! i)))"
proof -
  obtain x self2 tr2 where ex: "index_url_extract env url (self, tr) = (x, self2, tr2)"
    by (cases "index_url_extract env url (self, tr)")
  from index_url_extract_events[OF ex] obtain evs where
    evs: "tr2 = tr @ evs" "\<forall>e \<in> set evs. \<not> is_index_post e" by blast
  have nopost: "Http (PostIndex ep hs request) out \<notin> set evs"
    using evs(2) by auto
  show ?thesis
  proof (cases x)
    case (Inl e)
    with run ex have "tr' = tr2" by (simp add: index_url_def)
    with post evs nopost show ?thesis by simp
  next
    case (Inr y)
    show ?thesis
    proof (cases y)
      case None
      with run ex Inr have "tr' = tr2" by (simp add: index_url_def)
      with post evs nopost show ?thesis by simp
    next
      case (Some z)
      obtain u parts title where z: "z = Extracted u parts title" by (cases z)
      let ?t = "case title of Some t \<Rightarrow> PyStr t | None \<Rightarrow> PyStr ''No Title''"
      obtain r tr3 where seg: "index_segments env self2 (PyStr (slugify env u)) parts
                  (replicate (length parts) []) metadata ?t tr2 = (r, tr3)"
        by (cases "index_segments env self2 (PyStr (slugify env u)) parts
                  (replicate (length parts) []) metadata ?t tr2")
      from run ex Inr Some z seg have eq: "self' = self2" "tr' = tr3"
        by (auto simp: index_url_def split: sum.splits if_splits)
      from index_segments_http[OF seg] obtain evs' where evs': "tr3 = tr2 @ evs'" by blast
      from post eq evs evs' nopost
      have "Http (PostIndex ep hs request) out \<in> set (drop (length tr2) tr3)" by simp
      from index_segments_posts[OF seg this] ex Inr Some z eq show ?thesis by auto
    qed
  qed
qed

lemma index_url_extract_single:
  assumes "index_url_extract env url (self, tr) = (Inr (Some (Extracted u parts title)), self2, tr2)"
    and "http env tr (GetUrl url probe_headers (timeout self)) = Inr r"
    and "headers r ''Content-Type'' = Some ct"
    and "\<not> is_pdf ct url"
  shows "\<exists>text. parts = [text]"
  using assms
  by (auto simp: index_url_extract_def session_request_eq
      split: if_splits prod.splits sum.splits
      dest: index_url_markup_parts index_url_html_parts)

lemma index_url_extract_pdf:
  assumes "index_url_extract env url (self, tr) = (Inr (Some (Extracted u parts title)), self2, tr2)"
    and "http env tr (GetUrl url probe_headers (timeout self)) = Inr r"
    and "headers r ''Content-Type'' = Some ct"
    and "is_pdf ct url"
  shows "\<exists>r2 elements.
           http env (tr @ [Http (GetUrl url probe_headers (timeout self)) (Inr r)])
             (GetUrl url [] (timeout self)) = Inr r2
         \<and> partition_file env (content r2) = Inr elements
         \<and> parts = map el_str (filter (\<lambda>t. el_type t \<noteq> Title) elements)"
  using assms
  by (auto simp: index_url_extract_def session_request_eq index_url_pdf_def pdf_parts_def
      split: if_splits prod.splits sum.splits option.splits)

text \<open>
  C3, as amended. Every index request that \<open>index_url\<close> sends carries a document with
  one section per part of the extraction, in order. Outside the PDF branch (the content
  type is not application/pdf and the URL does not end in .pdf) there is exactly one
  part, the whole extracted text; in the PDF branch the parts are the texts of the
  elements of the partition that are not titles.
\<close>

theorem index_url_sections:
  assumes "index_url env url metadata (self, tr) = (res, self', tr')"
    and "Http (PostIndex ep hs request) out \<in> set (drop (length tr) tr')"
    and "http env tr (GetUrl url probe_headers (timeout self)) = Inr r"
    and "headers r ''Content-Type'' = Some ct"
  shows "\<exists>u parts title document sections.
           fst (index_url_extract env url (self, tr)) = Inr (Some (Extracted u parts title))
         \<and> request = index_request self' document
         \<and> map_of document ''section'' = Some (PyList sections)
         \<and> length sections = length parts
         \<and> (\<forall>i < length parts. py_getitem (sections ! i) ''text'' = Inr (PyStr (parts ! i)))
         \<and> (\<not> is_pdf ct url \<longrightarrow> length parts = 1)
         \<and> (is_pdf ct url \<longrightarrow>
              (\<exists>r2 elements.
                 http env (tr @ [Http (GetUrl url probe_headers (timeout self)) (Inr r)])
                   (GetUrl url [] (timeout self)) = Inr r2
               \<and> partition_file env (content r2) = Inr elements
               \<and> parts = map el_str (filter (\<lambda>t. el_type t \<noteq> Title) elements)))"
proof -
  from index_url_posts[OF assms(1,2)] obtain u parts title tr2 document sections where
    ex: "index_url_extract env url (self, tr) = (Inr (Some (Extracted u parts title)), self', tr2)"
    and doc: "request = index_request self' document"
      "map_of document ''section'' = Some (PyList sections)"
      "length sections = length parts"
      "\<forall>i < length parts. py_getitem (sections ! i) ''text'' = Inr (PyStr (parts ! i))"
    by blast
  have single: "\<not> is_pdf ct url \<longrightarrow> length parts = 1"
    using index_url_extract_single[OF ex assms(3,4)] by auto
  have pdf: "is_pdf ct url \<longrightarrow>
              (\<exists>r2 elements.
                 http env (tr @ [Http (GetUrl url probe_headers (timeout self)) (Inr r)])
                   (GetUrl url [] (timeout self)) = Inr r2
               \<and> partition_file env (content r2) = Inr elements
               \<and> parts = map el_str (filter (\<lambda>t. el_type t \<noteq> Title) elements))"
    using index_url_extract_pdf[OF ex assms(3,4)] by blast
  from ex have "fst (index_url_extract env url (self, tr)) = Inr (Some (Extracted u parts title))"
    by simp
  with doc single pdf show ?thesis by blast
qed

lemma reuses_language_Nil [simp]: "reuses_language lang []"
  by (simp add: reuses_language_def)

lemma reuses_language_append [simp]:
  "reuses_language lang (xs @ ys) = (reuses_language lang xs \<and> reuses_language lang ys)"
  by (auto simp: reuses_language_def)



lemma reuses_language_Cons_http [simp]:
  "reuses_language lang (Http c out # evs) = reuses_language lang evs"
  by (auto simp: reuses_language_def)

lemma reuses_language_Cons_browse [simp]:
  "reuses_language lang (Browse u out # evs) = reuses_language lang evs"
  by (auto simp: reuses_language_def)




lemma detections_append [simp]: "detections (xs @ ys) = detections xs + detections ys"
  by (simp add: detections_def)




lemmas ex_env_defs = ex_env_base_def ex_page_def ex_response_def ex_self_def Indexer_init_def
  probe_headers_def

lemmas index_defs = index_segments_def segments_document_def segments_section_def
  index_document_def json_dumps_def index_request_def post_headers_def already_exists_def
  status_ok_def

text \<open>
  C3 as stated fails: a PDF whose partition has two elements that are not titles is
  submitted as a document of two sections.
\<close>

theorem index_url_sections_counterexample:
  "index_url (ex_env_pdf ex_two_pages) ''http://example.com/report.pdf'' [] (ex_self, []) =
     (Inr True, ex_self,
      [Http (GetUrl ''http://example.com/report.pdf'' probe_headers 30)
          (Inr (ex_page 200 ''application/pdf'' ''%PDF'')),
       Http (GetUrl ''http://example.com/report.pdf'' [] 30)
          (Inr (ex_page 200 ''application/pdf'' ''%PDF'')),
       Http (PostIndex ''api.example.io'' (post_headers ex_self)
               (index_request ex_self
                  [(''documentId'', PyStr ''http://example.com/report.pdf''),
                   (''title'', PyStr ''unknown''),
                   (''section'',
                    PyList [PyDict [(''text'', PyStr ''page one''), (''metadataJson'', PyStr ''{}'')],
                            PyDict [(''text'', PyStr ''page two''), (''metadataJson'', PyStr ''{}'')]])]))
          (Inr (ex_response 200 ''OK''))])"
  by (simp add: url_defs index_defs ex_env_pdf_def ex_env_defs ex_two_pages_def pdf_parts_def
      pdf_title_def)

lemma ex_html_run:
  "index_url (ex_site ''text/html'' ''<body>Hello</body>'') ''http://example.com/'' [] (ex_self, []) =
     (Inr True, ex_self\<lparr>detected_language := ''en''\<rparr>,
      [Http (GetUrl ''http://example.com/'' probe_headers 30)
          (Inr (ex_page 200 ''text/html'' ''<body>Hello</body>'')),
       Browse ''http://example.com/'' (Inr (''http://example.com/'', ''<body>Hello</body>'')),
       Detect ''<body>Hello</body>'' (Inr (Some ''en'')),
       CallGoose3 ''en'', CallJusText ''en'',
       Http (PostIndex ''api.example.io'' (post_headers ex_self)
               (index_request ex_self
                  [(''documentId'', PyStr ''http://example.com/''),
                   (''title'', PyStr ''No title''),
                   (''section'',
                    PyList [PyDict [(''text'', PyStr ''<body>Hello</body>''),
                                    (''metadataJson'', PyStr ''{}'')]])]))
          (Inr (ex_response 200 ''OK''))])"
  by (simp add: url_defs index_defs ex_site_def ex_env_defs fetch_content_with_timeout_def
      detect_language_def get_content_and_title_def get_content_with_goose3_def
      get_content_with_justext_def language_stopwords_Goose_def str_lower_def lower_char_def)

lemma ex_pdf_http [simp]:
  "http (ex_env_pdf els) tr (GetUrl u hs t) = Inr (ex_page 200 ''application/pdf'' ''%PDF'')"
  by (simp add: ex_env_pdf_def)

lemma ex_page_sel [simp]:
  "status_code (ex_page st ct body) = st"
  "headers (ex_page st ct body) ''Content-Type'' = Some ct"
  "content (ex_page st ct body) = body"
  by (simp_all add: ex_page_def)

theorem pdf_extraction_witness:
  "is_pdf ''application/pdf'' ''http://example.com/report.pdf'' \<and>
   partition_file (ex_env_pdf ex_report) ''%PDF'' = Inr ex_report \<and>
   (\<exists>title. fst (index_url_extract (ex_env_pdf ex_report) ''http://example.com/report.pdf'' (ex_self, [])) =
            Inr (Some (Extracted ''http://example.com/report.pdf'' [''Body text over ten chars'']
                        (Some title)))
         \<and> title = ''unknown'')"
proof -
  have pdf: "is_pdf ''application/pdf'' ''http://example.com/report.pdf''"
    by (simp add: is_pdf_def)
  have ok: "raise_for_status (ex_page 200 ''application/pdf'' ''%PDF'') = None"
    by (simp add: raise_for_status_def)
  have wr: "write_file (ex_env_pdf ex_report) ''tmp.pdf'' (content (ex_page 200 ''application/pdf'' ''%PDF'')) = None"
    by (simp add: ex_env_pdf_def ex_env_base_def)
  have pa: "partition_file (ex_env_pdf ex_report) (content (ex_page 200 ''application/pdf'' ''%PDF'')) = Inr ex_report"
    by (simp add: ex_env_pdf_def)
  have short: "\<not> long_title x" if "x \<in> set ex_report" for x
    using that by (auto simp: ex_report_def long_title_def)
  from pdf_extraction[where env = "ex_env_pdf ex_report" and tr = "[]" and self = ex_self,
      OF ex_pdf_http ex_page_sel(1) ex_page_sel(2) pdf ex_pdf_http ok wr pa]
  obtain title where
    t: "fst (index_url_extract (ex_env_pdf ex_report) ''http://example.com/report.pdf'' (ex_self, [])) =
            Inr (Some (Extracted ''http://example.com/report.pdf''
                  (map el_str (filter (\<lambda>t. el_type t \<noteq> Title) ex_report)) (Some title)))"
    and "(\<exists>i < length ex_report. long_title (ex_report ! i)
                  \<and> (\<forall>j < i. \<not> long_title (ex_report ! j)) \<and> title = el_str (ex_report ! i))
             \<or> ((\<forall>x \<in> set ex_report. \<not> long_title x) \<and> title = ''unknown'')"
    by blast
  with short have "title = ''unknown''" by (metis nth_mem)
  moreover have "map el_str (filter (\<lambda>t. el_type t \<noteq> Title) ex_report) = [''Body text over ten chars'']"
    by (simp add: ex_report_def)
  ultimately show ?thesis using t pdf pa by simp
qed

theorem index_url_sections_witness:
  "\<exists>u parts title document sections.
           fst (index_url_extract (ex_site ''text/html'' ''<body>Hello</body>'') ''http://example.com/''
                  (ex_self, [])) = Inr (Some (Extracted u parts title))
         \<and> map_of document ''section'' = Some (PyList sections)
         \<and> length sections = length parts
         \<and> length parts = 1"
proof -
  let ?env = "ex_site ''text/html'' ''<body>Hello</body>''"
  let ?req = "index_request ex_self
                  [(''documentId'', PyStr ''http://example.com/''),
                   (''title'', PyStr ''No title''),
                   (''section'',
                    PyList [PyDict [(''text'', PyStr ''<body>Hello</body>''),
                                    (''metadataJson'', PyStr ''{}'')]])]"
  have post: "Http (PostIndex ''api.example.io'' (post_headers ex_self) ?req) (Inr (ex_response 200 ''OK''))
      \<in> set (drop (length ([]::world))
      [Http (GetUrl ''http://example.com/'' probe_headers 30)
          (Inr (ex_page 200 ''text/html'' ''<body>Hello</body>'')),
       Browse ''http://example.com/'' (Inr (''http://example.com/'', ''<body>Hello</body>'')),
       Detect ''<body>Hello</body>'' (Inr (Some ''en'')),
       CallGoose3 ''en'', CallJusText ''en'',
       Http (PostIndex ''api.example.io'' (post_headers ex_self) ?req) (Inr (ex_response 200 ''OK''))])"
    by simp
  have probe: "http ?env [] (GetUrl ''http://example.com/'' probe_headers (timeout ex_self)) =
      Inr (ex_page 200 ''text/html'' ''<body>Hello</body>'')"
    by (simp add: ex_site_def)
  have nopdf: "\<not> is_pdf ''text/html'' ''http://example.com/''"
    by (simp add: is_pdf_def ends_with_def)
  from index_url_sections[OF ex_html_run post probe ex_page_sel(2)] nopdf
  show ?thesis by blast
qed








lemma empty_answers_append [simp]:
  "empty_answers (xs @ ys) = empty_answers xs + empty_answers ys"
  by (simp add: empty_answers_def)







section \<open>Properties of URL normalisation\<close>

lemmas url_eval = normalize_url_def urlparse_def urlsplit_def split_scheme_def splitnetloc_def
  remove_unsafe_def unsafe_url_bytes_def is_c0_control_or_space_def is_ascii_def is_alpha_def
  scheme_chars_def find_char_def find_char_from_def rfind_char_def split_first_def
  splitparams_def uses_params_def uses_netloc_def checknetloc_def geturl_def urlunparse_def
  urlunsplit_def str_replace.simps str_lower_def lower_char_def Let_def

subsection \<open>Facts about the string methods\<close>

lemma takeWhile_until:
  "c \<notin> set a \<Longrightarrow> takeWhile (\<lambda>x. x \<noteq> c) (a @ c # b) = a"
  by (induction a) auto

lemma dropWhile_until:
  "c \<notin> set a \<Longrightarrow> dropWhile (\<lambda>x. x \<noteq> c) (a @ c # b) = c # b"
  by (induction a) auto

lemma find_char_append:
  "c \<notin> set a \<Longrightarrow> find_char c (a @ c # b) = Some (length a)"
  by (simp add: find_char_def takeWhile_until)

lemma find_char_None: "find_char c s = None \<longleftrightarrow> c \<notin> set s"
  by (simp add: find_char_def)

lemma find_char_Some:
  assumes "find_char c s = Some i"
  shows "\<exists>a b. s = a @ c # b \<and> c \<notin> set a \<and> i = length a"
proof -
  from assms have "c \<in> set s" by (auto simp: find_char_def split: if_splits)
  then obtain a b where ab: "s = a @ c # b" "c \<notin> set a" by (auto dest: split_list_first)
  with assms find_char_append[of c a b] show ?thesis by auto
qed

lemma starts_with_append: "starts_with (p @ s) p"
  by (induction p) auto

lemma starts_with_iff: "starts_with s p \<longleftrightarrow> (\<exists>t. s = p @ t)"
proof (induction s p rule: starts_with.induct)
  case (1 s)
  then show ?case by simp
next
  case (2 p ps)
  then show ?case by simp
next
  case (3 c cs p ps)
  then show ?case by auto
qed

lemma str_contains_iff: "str_contains s sub \<longleftrightarrow> (\<exists>a b. s = a @ sub @ b)"
proof (induction s)
  case Nil
  then show ?case by auto
next
  case (Cons c cs)
  show ?case
  proof
    assume "str_contains (c # cs) sub"
    then consider "starts_with (c # cs) sub" | "str_contains cs sub" by auto
    then show "\<exists>a b. c # cs = a @ sub @ b"
    proof cases
      case 1
      then obtain t where "c # cs = sub @ t" by (auto simp: starts_with_iff)
      then have "c # cs = [] @ sub @ t" by simp
      then show ?thesis by blast
    next
      case 2
      with Cons obtain a b where "cs = a @ sub @ b" by blast
      then have "c # cs = (c # a) @ sub @ b" by simp
      then show ?thesis by blast
    qed
  next
    assume "\<exists>a b. c # cs = a @ sub @ b"
    then obtain a b where ab: "c # cs = a @ sub @ b" by blast
    show "str_contains (c # cs) sub"
    proof (cases a)
      case Nil
      with ab have "starts_with (c # cs) sub" by (auto simp: starts_with_iff)
      then show ?thesis by simp
    next
      case (Cons x a')
      with ab have "cs = a' @ sub @ b" by simp
      with Cons.IH show ?thesis by auto
    qed
  qed
qed

lemma str_replace_absent:
  "\<not> str_contains s old \<Longrightarrow> str_replace old new s = s"
proof (induction old new s rule: str_replace.induct)
  case (1 old new s)
  show ?case
  proof (cases "old = [] \<or> s = []")
    case True
    then show ?thesis by (simp add: str_replace.simps)
  next
    case False
    then obtain c cs where s: "s = c # cs" by (cases s) auto
    from "1.prems" s have ns: "\<not> starts_with s old" and nc: "\<not> str_contains cs old" by auto
    from "1.IH"(2)[OF False ns] nc s have "str_replace old new cs = cs" by simp
    with False ns s show ?thesis by (subst str_replace.simps) simp
  qed
qed

lemma str_replace_prefix:
  "old \<noteq> [] \<Longrightarrow> str_replace old new (old @ s) = new @ str_replace old new s"
  by (subst str_replace.simps) (simp add: starts_with_append)

lemma str_replace_set: "set (str_replace old [] s) \<subseteq> set s"
proof (induction old "[] :: 'a list" s rule: str_replace.induct)
  case (1 old s)
  show ?case
  proof (cases "old = [] \<or> s = []")
    case True
    then show ?thesis by (simp add: str_replace.simps)
  next
    case False
    then obtain c cs where s: "s = c # cs" by (cases s) auto
    show ?thesis
    proof (cases "starts_with s old")
      case True
      from "1.hyps"(1)[OF False True] have "set (str_replace old [] (drop (length old) s)) \<subseteq> set s"
        by (meson order_trans set_drop_subset)
      with False True show ?thesis by (subst str_replace.simps) simp
    next
      case nsw: False
      from "1.hyps"(2)[OF False nsw] s have "set (str_replace old [] cs) \<subseteq> set cs" by simp
      with False nsw s show ?thesis by (subst str_replace.simps) auto
    qed
  qed
qed

lemma str_contains_single: "str_contains s [c] \<longleftrightarrow> c \<in> set s"
  by (induction s) auto

lemma str_replace_char_absent: "c \<notin> set s \<Longrightarrow> str_replace [c] new s = s"
  by (rule str_replace_absent) (simp add: str_contains_single)

lemma str_replace_char: "str_replace [c] [] s = filter (\<lambda>x. x \<noteq> c) s"
proof (induction s)
  case Nil
  then show ?case by (simp add: str_replace.simps)
next
  case (Cons x xs)
  then show ?case by (subst str_replace.simps) auto
qed

subsection \<open>Facts about urlsplit\<close>

lemma length_takeWhile_conj:
  "length (takeWhile (\<lambda>x. P x \<and> Q x) t) = min (length (takeWhile P t)) (length (takeWhile Q t))"
  by (induction t) auto

lemma find_from_min:
  "(case find_char_from c (a # b # t) 2 of Some w \<Rightarrow> min d w | None \<Rightarrow> d)
     = (if c \<in> set t then min d (2 + length (takeWhile (\<lambda>x. x \<noteq> c) t)) else d)"
  by (simp add: find_char_from_def find_char_def)

lemma takeWhile_all: "c \<notin> set t \<Longrightarrow> length (takeWhile (\<lambda>x. x \<noteq> c) t) = length t"
  by (induction t) auto

lemma min_find:
  "d \<le> 2 + length t \<Longrightarrow>
   (if c \<in> set t then min d (2 + length (takeWhile (\<lambda>x. x \<noteq> c) t)) else d)
     = min d (2 + length (takeWhile (\<lambda>x. x \<noteq> c) t))"
  by (auto simp: takeWhile_all)

lemma delim_step:
  assumes "d \<le> 2 + length t"
  shows "(case find_char_from c (a # b # t) 2 of Some w \<Rightarrow> min d w | None \<Rightarrow> d)
           = min d (2 + length (takeWhile (\<lambda>x. x \<noteq> c) t))"
  unfolding find_from_min using assms by (rule min_find)

lemma min3:
  "x1 \<le> L \<Longrightarrow> min (min (min (2 + L) (2 + x1)) (2 + x2)) (2 + x3) = 2 + min x1 (min x2 (x3::nat))"
  by arith

lemma splitnetloc_slashes:
  "splitnetloc (a # b # t) 2 = (takeWhile netloc_char t, dropWhile netloc_char t)"
proof -
  let ?url = "a # b # t"
  let ?f = "\<lambda>c delim. case find_char_from c ?url 2 of Some wdelim \<Rightarrow> min delim wdelim | None \<Rightarrow> delim"
  let ?m = "\<lambda>c. length (takeWhile (\<lambda>x. x \<noteq> c) t)"
  define d0 where "d0 = length ?url"
  define d1 where "d1 = ?f CHR ''/'' d0"
  define d2 where "d2 = ?f CHR ''?'' d1"
  define d3 where "d3 = ?f CHR ''#'' d2"
  have d0: "d0 = 2 + length t" by (simp add: d0_def)
  have e1: "d1 = min d0 (2 + ?m CHR ''/'')" unfolding d1_def by (rule delim_step) (simp add: d0)
  then have l1: "d1 \<le> 2 + length t" by (simp add: d0)
  have e2: "d2 = min d1 (2 + ?m CHR ''?'')" unfolding d2_def using l1 by (rule delim_step)
  then have l2: "d2 \<le> 2 + length t" using l1 by simp
  have e3: "d3 = min d2 (2 + ?m CHR ''#'')" unfolding d3_def using l2 by (rule delim_step)
  have "d3 = 2 + min (?m CHR ''/'') (min (?m CHR ''?'') (?m CHR ''#''))"
    unfolding e3 e2 e1 d0 by (rule min3) (rule length_takeWhile_le)
  also have "min (?m CHR ''/'') (min (?m CHR ''?'') (?m CHR ''#'')) = length (takeWhile netloc_char t)"
    unfolding netloc_char_def[abs_def] by (simp add: length_takeWhile_conj)
  finally have d3: "d3 = 2 + length (takeWhile netloc_char t)" .
  have "fold ?f ''/?#'' (length ?url) = d3"
    unfolding d3_def d2_def d1_def d0_def by (simp only: fold_simps comp_def id_def)
  then have "splitnetloc ?url 2 = (take (d3 - 2) (drop 2 ?url), drop d3 ?url)"
    unfolding splitnetloc_def Let_def by (simp only:)
  also have "\<dots> = (takeWhile netloc_char t, dropWhile netloc_char t)"
    unfolding d3 by (simp add: takeWhile_eq_take[symmetric] dropWhile_eq_drop[symmetric])
  finally show ?thesis .
qed

lemma take2_eq: "take 2 s = [a, b] \<longleftrightarrow> (\<exists>t. s = a # b # t)"
  by (cases s; cases "tl s") (auto simp: numeral_2_eq_2)

lemma split_first_in:
  "c \<in> set s \<Longrightarrow> \<exists>a b. s = a @ c # b \<and> c \<notin> set a \<and> split_first c s = (a, b)"
proof -
  assume "c \<in> set s"
  then obtain i where "find_char c s = Some i" by (auto simp: find_char_def)
  from find_char_Some[OF this] this show ?thesis by (auto simp: split_first_def)
qed

lemma split_first_absent: "c \<notin> set s \<Longrightarrow> split_first c s = (s, [])"
  by (simp add: split_first_def find_char_def)

lemma remove_unsafe_filter:
  "remove_unsafe url = filter (\<lambda>c. c \<notin> set unsafe_url_bytes) url"
  by (simp add: remove_unsafe_def unsafe_url_bytes_def str_replace_char)

lemma remove_unsafe_clean: "set (remove_unsafe url) \<inter> set unsafe_url_bytes = {}"
  by (auto simp: remove_unsafe_filter)

lemma remove_unsafe_id: "set url \<inter> set unsafe_url_bytes = {} \<Longrightarrow> remove_unsafe url = url"
  unfolding remove_unsafe_filter by (induction url) auto

lemma split_first_fst: "fst (split_first c s) = takeWhile (\<lambda>x. x \<noteq> c) s"
proof (cases "c \<in> set s")
  case True
  from split_first_in[OF this] obtain a b where "s = a @ c # b" "c \<notin> set a" "split_first c s = (a, b)"
    by blast
  then show ?thesis by (simp add: takeWhile_until)
next
  case False
  then have tw: "takeWhile (\<lambda>x. x \<noteq> c) s = s" by (induction s) auto
  from False have sp: "split_first c s = (s, [])" by (rule split_first_absent)
  show ?thesis unfolding sp tw by simp
qed

lemma splitnetloc_drop:
  "take 2 url = ''//'' \<Longrightarrow>
     splitnetloc url 2 = (takeWhile netloc_char (drop 2 url), dropWhile netloc_char (drop 2 url))"
  by (auto simp: take2_eq splitnetloc_slashes)

text \<open>\<open>urlsplit\<close> with the index arithmetic resolved.\<close>
lemma urlsplit_eq:
  "urlsplit lib u =
    (let url1 = remove_unsafe (dropWhile is_c0_control_or_space u);
         url2 = snd (split_scheme url1);
         n = (if take 2 url2 = ''//'' then takeWhile netloc_char (drop 2 url2) else []);
         url3 = (if take 2 url2 = ''//'' then dropWhile netloc_char (drop 2 url2) else url2);
         url4 = takeWhile (\<lambda>c. c \<noteq> CHR ''#'') url3
     in if (CHR ''['' \<in> set n \<and> CHR '']'' \<notin> set n) \<or> (CHR '']'' \<in> set n \<and> CHR ''['' \<notin> set n)
        then Inl ValueError
        else if CHR ''['' \<in> set n \<and> CHR '']'' \<in> set n \<and> \<not> check_bracketed_host lib (bracketed_host n)
        then Inl ValueError
        else if \<not> checknetloc lib n then Inl ValueError
        else Inr (fst (split_scheme url1), n, takeWhile (\<lambda>c. c \<noteq> CHR ''?'') url4,
                  snd (split_first CHR ''?'' url4), snd (split_first CHR ''#'' url3)))"
proof -
  have sf: "(if c \<in> set s then split_first c s else (s, [])) = (takeWhile (\<lambda>x. x \<noteq> c) s, snd (split_first c s))"
    for c :: char and s
    by (cases "c \<in> set s") (simp_all add: split_first_fst[symmetric] split_first_absent)
  show ?thesis
  proof (cases "take 2 (snd (split_scheme (remove_unsafe (dropWhile is_c0_control_or_space u)))) = ''//''")
    case True
    then show ?thesis
      unfolding urlsplit_def Let_def sf
      by (simp add: splitnetloc_drop case_prod_beta)
  next
    case False
    then show ?thesis
      unfolding urlsplit_def Let_def sf
      by (simp add: case_prod_beta)
  qed
qed

lemma is_alpha_facts:
  assumes "is_alpha c"
  shows "is_ascii c" "\<not> is_c0_control_or_space c" "is_alpha (lower_char c)"
  using assms
  by (auto simp: is_alpha_def is_ascii_def is_c0_control_or_space_def lower_char_def)

lemma scheme_char_facts:
  assumes "c \<in> set scheme_chars"
  shows "c \<noteq> CHR '':''" "c \<notin> set unsafe_url_bytes" "lower_char c \<in> set scheme_chars"
  using assms
  by (auto simp: scheme_chars_def unsafe_url_bytes_def lower_char_def)

lemma lower_char_idem: "lower_char (lower_char c) = lower_char c"
proof (cases "c \<in> set ''ABCDEFGHIJKLMNOPQRSTUVWXYZ''")
  case True
  then show ?thesis by (auto simp: lower_char_def)
next
  case False
  then have "map_of (zip ''ABCDEFGHIJKLMNOPQRSTUVWXYZ'' ''abcdefghijklmnopqrstuvwxyz'') c = None"
    by (simp add: map_of_eq_None_iff)
  then have "lower_char c = c" by (simp add: lower_char_def)
  then show ?thesis by simp
qed

lemma split_scheme_rest: "set (snd (split_scheme url)) \<subseteq> set url"
  by (auto simp: split_scheme_def split: option.splits dest: in_set_dropD)

lemma split_scheme_wf:
  assumes "fst (split_scheme url) \<noteq> []"
  shows "scheme_wf (fst (split_scheme url))"
proof -
  from assms obtain i where i: "find_char CHR '':'' url = Some i" "i > 0" "is_alpha (url ! 0)"
    "\<forall>c \<in> set (take i url). c \<in> set scheme_chars"
    and s: "fst (split_scheme url) = str_lower (take i url)"
    by (auto simp: split_scheme_def split: option.splits if_splits)
  from find_char_Some[OF i(1)] obtain a b where ab: "url = a @ CHR '':'' # b" "i = length a" by blast
  with i(2) have a: "a \<noteq> []" "take i url = a" "url ! 0 = hd a"
    by (auto simp: nth_append hd_conv_nth)
  have "hd (str_lower a) = lower_char (hd a)" using a(1) by (simp add: str_lower_def hd_map)
  with i(3) a(3) have "is_alpha (hd (str_lower a))" by (simp add: is_alpha_facts)
  moreover have "\<forall>c \<in> set (str_lower a). c \<in> set scheme_chars"
    using i(4) a(2) by (auto simp: str_lower_def scheme_char_facts)
  moreover have "str_lower (str_lower a) = str_lower a"
    by (simp add: str_lower_def lower_char_idem)
  moreover have "str_lower a \<noteq> []" using a(1) by (simp add: str_lower_def)
  ultimately show ?thesis unfolding s a(2) scheme_wf_def by blast
qed

lemma split_scheme_compute:
  assumes "scheme_wf s"
  shows "split_scheme (s @ CHR '':'' # rest) = (s, rest)"
proof -
  from assms have s: "s \<noteq> []" "is_alpha (hd s)" "\<forall>c \<in> set s. c \<in> set scheme_chars" "str_lower s = s"
    by (auto simp: scheme_wf_def)
  from s(3) have "CHR '':'' \<notin> set s" using scheme_char_facts(1) by blast
  then have f: "find_char CHR '':'' (s @ CHR '':'' # rest) = Some (length s)"
    by (rule find_char_append)
  have z: "(s @ CHR '':'' # rest) ! 0 = hd s" using s(1) by (simp add: nth_append hd_conv_nth)
  show ?thesis
    unfolding split_scheme_def f using s z by (simp add: is_alpha_facts)
qed

lemma takeWhile_split:
  "\<forall>c \<in> set a. P c \<Longrightarrow> b = [] \<or> \<not> P (hd b) \<Longrightarrow> takeWhile P (a @ b) = a \<and> dropWhile P (a @ b) = b"
proof (induction a)
  case Nil
  then show ?case by (cases b) auto
next
  case (Cons x a)
  then show ?case by auto
qed

lemma takeWhile_id: "\<forall>c \<in> set s. P c \<Longrightarrow> takeWhile P s = s"
  by (induction s) auto

lemma dropWhile_hd: "s = [] \<or> \<not> P (hd s) \<Longrightarrow> dropWhile P s = s"
  by (cases s) auto

lemma path_part_hd:
  assumes "t = [] \<or> \<not> netloc_char (hd t)"
  shows "takeWhile (\<lambda>c. c \<noteq> CHR ''?'') (takeWhile (\<lambda>c. c \<noteq> CHR ''#'') t) = []
       \<or> hd (takeWhile (\<lambda>c. c \<noteq> CHR ''?'') (takeWhile (\<lambda>c. c \<noteq> CHR ''#'') t)) = CHR ''/''"
  using assms by (cases t) (auto simp: netloc_char_def)

lemma path_part_set:
  "set (takeWhile (\<lambda>c. c \<noteq> CHR ''?'') (takeWhile (\<lambda>c. c \<noteq> CHR ''#'') t))
     \<subseteq> {c \<in> set t. c \<noteq> CHR ''?'' \<and> c \<noteq> CHR ''#''}"
  by (auto dest: set_takeWhileD)

lemma dropWhile_netloc_hd: "dropWhile netloc_char t = [] \<or> \<not> netloc_char (hd (dropWhile netloc_char t))"
  by (metis hd_dropWhile)

subsection \<open>splitparams\<close>

lemma rfind_char_last: "c \<notin> set seg \<Longrightarrow> rfind_char c (pre @ c # seg) = Some (length pre)"
proof -
  assume "c \<notin> set seg"
  then have "c \<notin> set (rev seg)" by simp
  from find_char_append[OF this, of "rev pre"]
  have "find_char c (rev (pre @ c # seg)) = Some (length seg)" by simp
  then show ?thesis by (simp add: rfind_char_def)
qed

lemma splitparams_last:
  assumes "CHR ''/'' \<notin> set seg"
  shows "splitparams (pre @ CHR ''/'' # seg) =
     (if CHR '';'' \<in> set seg
      then (pre @ CHR ''/'' # takeWhile (\<lambda>c. c \<noteq> CHR '';'') seg,
            drop 1 (dropWhile (\<lambda>c. c \<noteq> CHR '';'') seg))
      else (pre @ CHR ''/'' # seg, []))"
proof (cases "CHR '';'' \<in> set seg")
  case True
  then obtain a b where ab: "seg = a @ CHR '';'' # b" "CHR '';'' \<notin> set a"
    by (auto dest: split_list_first)
  have "find_char CHR '';'' (CHR ''/'' # seg) = Some (Suc (length a))"
    using find_char_append[of "CHR '';''" "CHR ''/'' # a" b] ab by simp
  then have ff: "find_char_from CHR '';'' (pre @ CHR ''/'' # seg) (length pre) = Some (length pre + Suc (length a))"
    by (simp add: find_char_from_def)
  have sl: "CHR ''/'' \<in> set (pre @ CHR ''/'' # seg)" by simp
  have "splitparams (pre @ CHR ''/'' # seg) =
      (take (length pre + Suc (length a)) (pre @ CHR ''/'' # seg),
       drop (Suc (length pre + Suc (length a))) (pre @ CHR ''/'' # seg))"
    unfolding splitparams_def rfind_char_last[OF assms] using sl ff by simp
  also have "\<dots> = (pre @ CHR ''/'' # a, b)" using ab by simp
  finally show ?thesis
    using True ab by (simp add: takeWhile_until dropWhile_until)
next
  case False
  then have "find_char CHR '';'' (CHR ''/'' # seg) = None" by (simp add: find_char_def)
  then have "find_char_from CHR '';'' (pre @ CHR ''/'' # seg) (length pre) = None"
    by (simp add: find_char_from_def)
  then show ?thesis
    using False by (simp add: splitparams_def rfind_char_last[OF assms])
qed

lemma split_last_slash:
  "CHR ''/'' \<in> set url \<Longrightarrow> \<exists>pre seg. url = pre @ CHR ''/'' # seg \<and> CHR ''/'' \<notin> set seg"
  by (auto dest: split_list_last)

text \<open>What \<open>urlparse\<close> keeps as the path is not split again by \<open>urlparse\<close>.\<close>
lemma splitparams_stable:
  assumes "CHR '';'' \<in> set url" and "CHR '';'' \<in> set (fst (splitparams url))"
  shows "splitparams (fst (splitparams url)) = (fst (splitparams url), [])"
proof (cases "CHR ''/'' \<in> set url")
  case True
  from split_last_slash[OF this] obtain pre seg where
    u: "url = pre @ CHR ''/'' # seg" "CHR ''/'' \<notin> set seg" by blast
  show ?thesis
  proof (cases "CHR '';'' \<in> set seg")
    case True
    let ?seg = "takeWhile (\<lambda>c. c \<noteq> CHR '';'') seg"
    have f: "fst (splitparams url) = pre @ CHR ''/'' # ?seg"
      using u True by (simp add: splitparams_last)
    have "CHR ''/'' \<notin> set ?seg" using u(2) by (auto dest: set_takeWhileD)
    moreover have "CHR '';'' \<notin> set ?seg" by (auto dest: set_takeWhileD)
    ultimately show ?thesis unfolding f by (simp add: splitparams_last)
  next
    case False
    then show ?thesis using u by (simp add: splitparams_last)
  qed
next
  case False
  from assms(1) obtain a b where ab: "url = a @ CHR '';'' # b" "CHR '';'' \<notin> set a"
    by (auto dest: split_list_first)
  with False have "fst (splitparams url) = a"
    by (simp add: splitparams_def find_char_append)
  with assms(2) ab(2) show ?thesis by simp
qed

lemma splitparams_prefix:
  assumes "CHR '';'' \<in> set url"
  shows "set (fst (splitparams url)) \<subseteq> set url"
    and "hd url = CHR ''/'' \<Longrightarrow> url \<noteq> [] \<Longrightarrow> fst (splitparams url) \<noteq> [] \<and> hd (fst (splitparams url)) = CHR ''/''"
proof -
  show "set (fst (splitparams url)) \<subseteq> set url"
  proof (cases "CHR ''/'' \<in> set url")
    case True
    from split_last_slash[OF this] obtain pre seg where
      u: "url = pre @ CHR ''/'' # seg" "CHR ''/'' \<notin> set seg" by blast
    then show ?thesis by (auto simp: splitparams_last dest: set_takeWhileD)
  next
    case False
    from assms obtain a b where ab: "url = a @ CHR '';'' # b" "CHR '';'' \<notin> set a"
      by (auto dest: split_list_first)
    with False show ?thesis by (auto simp: splitparams_def find_char_append)
  qed
  show "fst (splitparams url) \<noteq> [] \<and> hd (fst (splitparams url)) = CHR ''/''"
    if "hd url = CHR ''/''" "url \<noteq> []"
  proof -
    from that have "CHR ''/'' \<in> set url" by (cases url) auto
    from split_last_slash[OF this] obtain pre seg where
      u: "url = pre @ CHR ''/'' # seg" "CHR ''/'' \<notin> set seg" by blast
    then have f: "fst (splitparams url) =
        pre @ CHR ''/'' # (if CHR '';'' \<in> set seg then takeWhile (\<lambda>c. c \<noteq> CHR '';'') seg else seg)"
      by (simp add: splitparams_last)
    from that u(1) have "hd (pre @ [CHR ''/'']) = CHR ''/''" by (cases pre) auto
    then show ?thesis unfolding f by (cases pre) auto
  qed
qed

subsection \<open>urlparse\<close>

lemma urlsplit_facts:
  assumes "urlsplit lib u = Inr (s, n, pth, q, f)"
  shows "s = [] \<or> scheme_wf s"
    and "\<forall>c \<in> set n. netloc_char c \<and> c \<notin> set unsafe_url_bytes"
    and "\<forall>c \<in> set pth. c \<noteq> CHR ''?'' \<and> c \<noteq> CHR ''#'' \<and> c \<notin> set unsafe_url_bytes"
    and "n \<noteq> [] \<longrightarrow> pth = [] \<or> hd pth = CHR ''/''"
proof -
  define url1 where "url1 = remove_unsafe (dropWhile is_c0_control_or_space u)"
  define url2 where "url2 = snd (split_scheme url1)"
  define url3 where "url3 = (if take 2 url2 = ''//'' then dropWhile netloc_char (drop 2 url2) else url2)"
  from assms have s: "s = fst (split_scheme url1)"
    and n: "n = (if take 2 url2 = ''//'' then takeWhile netloc_char (drop 2 url2) else [])"
    and p: "pth = takeWhile (\<lambda>c. c \<noteq> CHR ''?'') (takeWhile (\<lambda>c. c \<noteq> CHR ''#'') url3)"
    unfolding urlsplit_eq url1_def url2_def url3_def Let_def
    by (auto split: if_splits)
  have clean1: "set url1 \<inter> set unsafe_url_bytes = {}" unfolding url1_def by (rule remove_unsafe_clean)
  have sub2: "set url2 \<subseteq> set url1" unfolding url2_def by (rule split_scheme_rest)
  have sub3: "set url3 \<subseteq> set url2" unfolding url3_def
    by (auto dest: set_dropWhileD in_set_dropD)
  show "s = [] \<or> scheme_wf s" unfolding s using split_scheme_wf by blast
  show "\<forall>c \<in> set n. netloc_char c \<and> c \<notin> set unsafe_url_bytes"
  proof
    fix c assume c: "c \<in> set n"
    then have t: "take 2 url2 = ''//''" "c \<in> set (takeWhile netloc_char (drop 2 url2))"
      unfolding n by (auto split: if_splits)
    then have "netloc_char c" "c \<in> set url2" by (auto dest: set_takeWhileD in_set_dropD)
    with sub2 clean1 show "netloc_char c \<and> c \<notin> set unsafe_url_bytes" by auto
  qed
  show "\<forall>c \<in> set pth. c \<noteq> CHR ''?'' \<and> c \<noteq> CHR ''#'' \<and> c \<notin> set unsafe_url_bytes"
  proof
    fix c assume "c \<in> set pth"
    with path_part_set[of url3] have "c \<in> set url3" "c \<noteq> CHR ''?''" "c \<noteq> CHR ''#''"
      unfolding p by auto
    with sub3 sub2 clean1 show "c \<noteq> CHR ''?'' \<and> c \<noteq> CHR ''#'' \<and> c \<notin> set unsafe_url_bytes"
      by auto
  qed
  show "n \<noteq> [] \<longrightarrow> pth = [] \<or> hd pth = CHR ''/''"
  proof
    assume "n \<noteq> []"
    then have "url3 = dropWhile netloc_char (drop 2 url2)" unfolding n url3_def by (auto split: if_splits)
    then have "url3 = [] \<or> \<not> netloc_char (hd url3)" using dropWhile_netloc_hd by simp
    then show "pth = [] \<or> hd pth = CHR ''/''" unfolding p by (rule path_part_hd)
  qed
qed

lemma urlparse_facts:
  assumes "urlparse lib u = Inr p"
  shows "scheme p = [] \<or> scheme_wf (scheme p)"
    and "\<forall>c \<in> set (netloc p). netloc_char c \<and> c \<notin> set unsafe_url_bytes"
    and "\<forall>c \<in> set (path p). c \<noteq> CHR ''?'' \<and> c \<noteq> CHR ''#'' \<and> c \<notin> set unsafe_url_bytes"
    and "netloc p \<noteq> [] \<longrightarrow> path p = [] \<or> hd (path p) = CHR ''/''"
    and "scheme p \<in> set uses_params \<longrightarrow> CHR '';'' \<in> set (path p)
           \<longrightarrow> splitparams (path p) = (path p, [])"
proof -
  from assms obtain s n pth q f where
    sp: "urlsplit lib u = Inr (s, n, pth, q, f)"
    and p: "scheme p = s" "netloc p = n"
      "path p = (if s \<in> set uses_params \<and> CHR '';'' \<in> set pth then fst (splitparams pth) else pth)"
    by (auto simp: urlparse_def Let_def case_prod_beta split: sum.splits if_splits)
  note f = urlsplit_facts[OF sp]
  show "scheme p = [] \<or> scheme_wf (scheme p)" using f(1) p(1) by simp
  show "\<forall>c \<in> set (netloc p). netloc_char c \<and> c \<notin> set unsafe_url_bytes" using f(2) p(2) by simp
  show "\<forall>c \<in> set (path p). c \<noteq> CHR ''?'' \<and> c \<noteq> CHR ''#'' \<and> c \<notin> set unsafe_url_bytes"
  proof (cases "s \<in> set uses_params \<and> CHR '';'' \<in> set pth")
    case True
    then have "set (path p) \<subseteq> set pth" using splitparams_prefix(1) p(3) by auto
    with f(3) show ?thesis by blast
  next
    case False
    with f(3) p(3) show ?thesis by auto
  qed
  show "netloc p \<noteq> [] \<longrightarrow> path p = [] \<or> hd (path p) = CHR ''/''"
  proof (cases "s \<in> set uses_params \<and> CHR '';'' \<in> set pth")
    case True
    show ?thesis
    proof
      assume "netloc p \<noteq> []"
      with f(4) p(2) True have "pth \<noteq> []" "hd pth = CHR ''/''" by auto
      from splitparams_prefix(2)[OF _ this(2,1)] True p(3)
      show "path p = [] \<or> hd (path p) = CHR ''/''" by auto
    qed
  next
    case False
    with f(4) p(2,3) show ?thesis by auto
  qed
  show "scheme p \<in> set uses_params \<longrightarrow> CHR '';'' \<in> set (path p)
           \<longrightarrow> splitparams (path p) = (path p, [])"
  proof (intro impI)
    assume a: "scheme p \<in> set uses_params" "CHR '';'' \<in> set (path p)"
    show "splitparams (path p) = (path p, [])"
    proof (cases "CHR '';'' \<in> set pth")
      case True
      with a p have pp: "path p = fst (splitparams pth)" by simp
      from splitparams_stable[OF True] a(2) show ?thesis unfolding pp by simp
    next
      case False
      with a p show ?thesis by simp
    qed
  qed
qed

lemma urlparse_compose:
  assumes s: "scheme_wf s"
    and n: "\<forall>c \<in> set n. netloc_char c \<and> c \<notin> set unsafe_url_bytes \<and> is_ascii c
               \<and> c \<noteq> CHR ''['' \<and> c \<noteq> CHR '']''"
    and p: "\<forall>c \<in> set pth. c \<noteq> CHR ''?'' \<and> c \<noteq> CHR ''#'' \<and> c \<notin> set unsafe_url_bytes"
    and h: "pth = [] \<or> hd pth = CHR ''/''"
    and st: "s \<in> set uses_params \<longrightarrow> CHR '';'' \<in> set pth \<longrightarrow> splitparams pth = (pth, [])"
  shows "urlparse lib (s @ '':'' @ ''//'' @ n @ pth) =
           Inr \<lparr>scheme = s, netloc = n, path = pth, params = [], query = [], fragment = []\<rparr>"
proof -
  define r where "r = s @ '':'' @ ''//'' @ n @ pth"
  from s have s1: "s \<noteq> []" and s2: "is_alpha (hd s)" and s3: "\<forall>c \<in> set s. c \<in> set scheme_chars"
    unfolding scheme_wf_def by blast+
  have hr: "hd r = hd s" and rne: "r \<noteq> []" using s1 unfolding r_def by simp_all
  have "\<not> is_c0_control_or_space (hd r)" unfolding hr using s2 by (rule is_alpha_facts(2))
  with rne have d: "dropWhile is_c0_control_or_space r = r" by (cases r) simp_all
  have u1: "CHR '':'' \<notin> set unsafe_url_bytes" "CHR ''/'' \<notin> set unsafe_url_bytes"
    by (simp_all add: unsafe_url_bytes_def)
  have cs: "\<forall>c \<in> set s. c \<notin> set unsafe_url_bytes" using s3 scheme_char_facts(2) by blast
  have cn: "\<forall>c \<in> set n. c \<notin> set unsafe_url_bytes" using n by blast
  have cp: "\<forall>c \<in> set pth. c \<notin> set unsafe_url_bytes" using p by blast
  have sr: "set r = set s \<union> {CHR '':'', CHR ''/''} \<union> set n \<union> set pth"
    unfolding r_def by auto
  have "set r \<inter> set unsafe_url_bytes = {}"
    unfolding sr using cs cn cp u1 by blast
  then have u: "remove_unsafe r = r" by (rule remove_unsafe_id)
  have sc: "split_scheme r = (s, ''//'' @ n @ pth)"
    unfolding r_def using split_scheme_compute[OF s, of "''//'' @ n @ pth"] by simp
  have nh: "pth = [] \<or> \<not> netloc_char (hd pth)" using h by (auto simp: netloc_char_def)
  have nn: "\<forall>c \<in> set n. netloc_char c" using n by blast
  have tw: "takeWhile netloc_char (n @ pth) = n" and dw: "dropWhile netloc_char (n @ pth) = pth"
    using takeWhile_split[of n netloc_char pth] nn nh by auto
  have t1: "takeWhile (\<lambda>c. c \<noteq> CHR ''#'') pth = pth" using p by (intro takeWhile_id) blast
  have t2: "takeWhile (\<lambda>c. c \<noteq> CHR ''?'') pth = pth" using p by (intro takeWhile_id) blast
  have q1: "split_first CHR ''?'' pth = (pth, [])" using p by (intro split_first_absent) blast
  have q2: "split_first CHR ''#'' pth = (pth, [])" using p by (intro split_first_absent) blast
  have br: "CHR ''['' \<notin> set n" "CHR '']'' \<notin> set n" using n by blast+
  have "\<forall>c \<in> set n. is_ascii c" using n by blast
  then have ck: "checknetloc lib n" by (simp add: checknetloc_def)
  have tk: "take 2 (''//'' @ n @ pth) = ''//''" by simp
  have dr: "drop 2 (''//'' @ n @ pth) = n @ pth" by simp
  have us: "urlsplit lib r = Inr (s, n, pth, [], [])"
    unfolding urlsplit_eq d u sc Let_def snd_conv fst_conv tk dr tw dw t1 t2 q1 q2
    using br ck by (simp add: t1 t2 q1 q2)
  show ?thesis
  proof (cases "s \<in> set uses_params \<and> CHR '';'' \<in> set pth")
    case True
    with st have "splitparams pth = (pth, [])" by blast
    with True show ?thesis unfolding r_def[symmetric] urlparse_def us by simp
  next
    case False
    then show ?thesis unfolding r_def[symmetric] urlparse_def us by auto
  qed
qed

subsection \<open>normalize\_url\<close>

lemma str_replace_Nil: "str_replace old new [] = []"
  by (simp add: str_replace.simps)

lemma urlunsplit_host:
  assumes "sch \<noteq> []" and "loc \<noteq> []" and "pth = [] \<or> hd pth = CHR ''/''"
  shows "urlunsplit sch loc pth [] [] = sch @ ''://'' @ loc @ pth"
proof -
  from assms(3) have "\<not> (pth \<noteq> [] \<and> take 1 pth \<noteq> ''/'')" by (cases pth) auto
  with assms(1,2) show ?thesis by (simp add: urlunsplit_def)
qed

text \<open>
  The result of \<open>normalize_url\<close> when the parse finds a scheme and the host is not
  emptied: the scheme, \<open>://\<close>, the host without any \<open>www.\<close>, and the path.
\<close>
lemma normalize_url_result:
  assumes parse: "urlparse lib (if \<not> str_contains url ''://'' then ''http://'' @ url else url) = Inr p"
    and sch: "scheme p \<noteq> []"
    and host: "str_replace ''www.'' [] (netloc p) \<noteq> []"
  shows "normalize_url lib url = Inr (scheme p @ ''://'' @ str_replace ''www.'' [] (netloc p) @ path p)"
proof -
  note f = urlparse_facts[OF parse]
  from host have nl: "netloc p \<noteq> []" by (auto simp: str_replace_Nil)
  with f(4) have hd: "path p = [] \<or> hd (path p) = CHR ''/''" by blast
  from f(3) have "\<forall>c \<in> set (path p). c \<noteq> CHR ''?''" by blast
  then have "takeWhile (\<lambda>c. c \<noteq> CHR ''?'') (path p) = path p" by (rule takeWhile_id)
  then have pth: "fst (split_first CHR ''?'' (path p)) = path p" by (simp add: split_first_fst)
  have "normalize_url lib url =
          Inr (urlunsplit (scheme p) (str_replace ''www.'' [] (netloc p)) (path p) [] [])"
    unfolding normalize_url_def Let_def parse by (simp add: pth geturl_def urlunparse_def)
  with urlunsplit_host[OF sch host hd] show ?thesis by simp
qed

text \<open>A result whose host holds no \<open>www.\<close> is normalised to itself.\<close>
lemma normalize_url_stable:
  assumes s: "scheme_wf s"
    and n: "\<forall>c \<in> set n. netloc_char c \<and> c \<notin> set unsafe_url_bytes \<and> is_ascii c
               \<and> c \<noteq> CHR ''['' \<and> c \<noteq> CHR '']''"
    and ne: "n \<noteq> []"
    and nw: "\<not> str_contains n ''www.''"
    and p: "\<forall>c \<in> set pth. c \<noteq> CHR ''?'' \<and> c \<noteq> CHR ''#'' \<and> c \<notin> set unsafe_url_bytes"
    and h: "pth = [] \<or> hd pth = CHR ''/''"
    and st: "s \<in> set uses_params \<longrightarrow> CHR '';'' \<in> set pth \<longrightarrow> splitparams pth = (pth, [])"
  shows "normalize_url lib (s @ ''://'' @ n @ pth) = Inr (s @ ''://'' @ n @ pth)"
proof -
  define r where "r = s @ ''://'' @ n @ pth"
  define p' where "p' = \<lparr>scheme = s, netloc = n, path = pth, params = [], query = [], fragment = []\<rparr>"
  have "r = s @ ''://'' @ (n @ pth)" by (simp add: r_def)
  then have c: "str_contains r ''://''" unfolding str_contains_iff by blast
  have "urlparse lib r = Inr p'"
    using urlparse_compose[OF s n p h st, of lib] by (simp add: r_def p'_def)
  with c have parse: "urlparse lib (if \<not> str_contains r ''://'' then ''http://'' @ r else r) = Inr p'"
    by simp
  from s have sne: "scheme p' \<noteq> []" by (simp add: scheme_wf_def p'_def)
  have rep: "str_replace ''www.'' [] (netloc p') = n"
    using str_replace_absent[OF nw] by (simp add: p'_def)
  with ne have hne: "str_replace ''www.'' [] (netloc p') \<noteq> []" by simp
  from normalize_url_result[OF parse sne hne]
  show ?thesis unfolding rep r_def by (simp add: p'_def)
qed

lemma normalize_url_twice:
  assumes parse: "urlparse lib (if \<not> str_contains url ''://'' then ''http://'' @ url else url) = Inr p"
    and sch: "scheme p \<noteq> []"
    and host: "str_replace ''www.'' [] (netloc p) \<noteq> []"
    and nw: "\<not> str_contains (str_replace ''www.'' [] (netloc p)) ''www.''"
    and asc: "\<forall>c \<in> set (str_replace ''www.'' [] (netloc p)).
                is_ascii c \<and> c \<noteq> CHR ''['' \<and> c \<noteq> CHR '']''"
  shows "normalize_url lib (scheme p @ ''://'' @ str_replace ''www.'' [] (netloc p) @ path p)
           = Inr (scheme p @ ''://'' @ str_replace ''www.'' [] (netloc p) @ path p)"
proof -
  note f = urlparse_facts[OF parse]
  from f(1) sch have s: "scheme_wf (scheme p)" by blast
  from host have nl: "netloc p \<noteq> []" by (auto simp: str_replace_Nil)
  with f(4) have hd: "path p = [] \<or> hd (path p) = CHR ''/''" by blast
  have sub: "set (str_replace ''www.'' [] (netloc p)) \<subseteq> set (netloc p)" by (rule str_replace_set)
  have n: "\<forall>c \<in> set (str_replace ''www.'' [] (netloc p)).
             netloc_char c \<and> c \<notin> set unsafe_url_bytes \<and> is_ascii c \<and> c \<noteq> CHR ''['' \<and> c \<noteq> CHR '']''"
    using sub f(2) asc by blast
  show ?thesis by (rule normalize_url_stable[OF s n host nw f(3) hd f(5)])
qed

lemma www_not_prefix:
  assumes "\<not> str_contains (x # a) ''www.''"
  shows "\<not> starts_with (x # a @ ''www.'' @ b) ''www.''"
proof (cases a)
  case Nil
  then show ?thesis by simp
next
  case (Cons c1 a1)
  show ?thesis
  proof (cases a1)
    case Nil
    with Cons show ?thesis by simp
  next
    case (Cons c2 a2)
    note c2 = this
    show ?thesis
    proof (cases a2)
      case Nil
      with c2 \<open>a = c1 # a1\<close> show ?thesis by simp
    next
      case (Cons c3 a3)
      with c2 \<open>a = c1 # a1\<close> assms show ?thesis by simp
    qed
  qed
qed

text \<open>A single \<open>www.\<close> is removed wherever it stands.\<close>
lemma str_replace_once:
  assumes "\<not> str_contains a ''www.''" and "\<not> str_contains b ''www.''"
  shows "str_replace ''www.'' [] (a @ ''www.'' @ b) = a @ b"
  using assms(1)
proof (induction a)
  case Nil
  from str_replace_prefix[of "''www.''" "[]" b] str_replace_absent[OF assms(2)]
  show ?case by simp
next
  case (Cons x a)
  from Cons.prems have a: "\<not> str_contains a ''www.''" by simp
  define t where "t = (x # a) @ ''www.'' @ b"
  have ns: "\<not> starts_with t ''www.''"
    unfolding t_def using www_not_prefix[OF Cons.prems, of b] by simp
  have tne: "t \<noteq> []" and ht: "hd t = x" and tt: "tl t = a @ ''www.'' @ b"
    unfolding t_def by simp_all
  have "str_replace ''www.'' [] t = hd t # str_replace ''www.'' [] (tl t)"
    by (subst str_replace.simps) (simp only: ns tne if_False list.simps simp_thms)
  then have "str_replace ''www.'' [] ((x # a) @ ''www.'' @ b) = x # str_replace ''www.'' [] (a @ ''www.'' @ b)"
    unfolding ht tt unfolding t_def .
  with Cons.IH[OF a] show ?case by simp
qed

lemma ex_parse_www:
  "urlparse ex_lib (if \<not> str_contains ''www.example.com/a?b=1'' ''://''
                    then ''http://'' @ ''www.example.com/a?b=1'' else ''www.example.com/a?b=1'')
     = Inr \<lparr>scheme = ''http'', netloc = ''www.example.com'', path = ''/a'', params = '''',
             query = ''b=1'', fragment = ''''\<rparr>"
  by (simp add: url_eval)

lemma ex_parse_inner:
  "urlparse ex_lib (if \<not> str_contains ''https://docs.www.example.com/x'' ''://''
                    then ''http://'' @ ''https://docs.www.example.com/x''
                    else ''https://docs.www.example.com/x'')
     = Inr \<lparr>scheme = ''https'', netloc = ''docs.www.example.com'', path = ''/x'', params = '''',
             query = '''', fragment = ''''\<rparr>"
  by (simp add: url_eval)

lemma ex_parse_plain:
  "urlparse ex_lib (if \<not> str_contains ''example.org/b'' ''://''
                    then ''http://'' @ ''example.org/b'' else ''example.org/b'')
     = Inr \<lparr>scheme = ''http'', netloc = ''example.org'', path = ''/b'', params = '''',
             query = '''', fragment = ''''\<rparr>"
  by (simp add: url_eval)

text \<open>
  C6 as stated fails: \<open>wwww.ww.example.com\<close> is normalised to
  \<open>http://www.example.com\<close>, and that to \<open>http://example.com\<close>.
\<close>
theorem normalize_url_idempotent_counterexample:
  "normalize_url ex_lib ''wwww.ww.example.com'' = Inr ''http://www.example.com''
   \<and> normalize_url ex_lib ''http://www.example.com'' = Inr ''http://example.com''"
  by (simp add: url_eval)

text \<open>
  C6, as amended. When the parse of the URL (with the default scheme where it has no
  \<open>://\<close>) finds a scheme, and the host without its \<open>www.\<close> occurrences is not empty,
  holds no further \<open>www.\<close>, and is made of ASCII characters other than brackets, then
  \<open>normalize_url\<close> returns the scheme, \<open>://\<close>, that host and the path, and normalising
  this result returns it again.
\<close>
theorem normalize_url_idempotent:
  assumes "urlparse lib (if \<not> str_contains url ''://'' then ''http://'' @ url else url) = Inr p"
    and "scheme p \<noteq> []"
    and "host = str_replace ''www.'' [] (netloc p)"
    and "host \<noteq> []"
    and "\<not> str_contains host ''www.''"
    and "\<forall>c \<in> set host. is_ascii c \<and> c \<noteq> CHR ''['' \<and> c \<noteq> CHR '']''"
  shows "normalize_url lib url = Inr (scheme p @ ''://'' @ host @ path p)
       \<and> normalize_url lib (scheme p @ ''://'' @ host @ path p)
           = Inr (scheme p @ ''://'' @ host @ path p)"
  using assms normalize_url_result[of lib url p] normalize_url_twice[of lib url p]
  by blast

theorem normalize_url_idempotent_witness:
  "normalize_url ex_lib ''www.example.com/a?b=1'' = Inr ''http://example.com/a''
   \<and> normalize_url ex_lib ''http://example.com/a'' = Inr ''http://example.com/a''"
proof -
  define p where "p = \<lparr>scheme = ''http'', netloc = ''www.example.com'', path = ''/a'', params = '''',
             query = ''b=1'', fragment = ''''\<rparr>"
  have h1: "urlparse ex_lib (if \<not> str_contains ''www.example.com/a?b=1'' ''://''
                    then ''http://'' @ ''www.example.com/a?b=1'' else ''www.example.com/a?b=1'') = Inr p"
    unfolding p_def by (rule ex_parse_www)
  have h2: "scheme p \<noteq> []" by (simp add: p_def)
  have h3: "''example.com'' = str_replace ''www.'' [] (netloc p)"
    by (simp add: p_def str_replace.simps)
  have h4: "''example.com'' \<noteq> []" by simp
  have h5: "\<not> str_contains ''example.com'' ''www.''" by simp
  have h6: "\<forall>c \<in> set ''example.com''. is_ascii c \<and> c \<noteq> CHR ''['' \<and> c \<noteq> CHR '']''"
    by (simp add: is_ascii_def)
  from normalize_url_idempotent[OF h1 h2 h3 h4 h5 h6]
  show ?thesis by (simp add: p_def)
qed

text \<open>
  C7 as stated fails: the \<open>www.\<close> inside the host \<open>en.www.example.com\<close> is not
  preserved.
\<close>
theorem normalize_url_host_counterexample:
  "normalize_url ex_lib ''http://en.www.example.com'' = Inr ''http://en.example.com''"
  by (simp add: url_eval)

text \<open>
  C7, as amended. \<open>normalize_url\<close> removes \<open>www.\<close> from the host wherever it stands,
  not only in front. When the parse of the URL (with the default scheme where it has no
  \<open>://\<close>) finds a scheme: a host that is not empty and holds no \<open>www.\<close> is kept as it
  is; and a host \<open>a www. b\<close>, where neither \<open>a\<close> nor \<open>b\<close> holds \<open>www.\<close> and one of
  them is not empty, becomes \<open>a b\<close>, for an empty \<open>a\<close> (the leading label) as well as
  for \<open>a\<close> = \<open>docs.\<close>. The result is the scheme, \<open>://\<close>, that host and the path.
\<close>
theorem normalize_url_host:
  assumes "urlparse lib (if \<not> str_contains url ''://'' then ''http://'' @ url else url) = Inr p"
    and "scheme p \<noteq> []"
  shows "(netloc p \<noteq> [] \<and> \<not> str_contains (netloc p) ''www.''
            \<longrightarrow> normalize_url lib url = Inr (scheme p @ ''://'' @ netloc p @ path p))
       \<and> (\<forall>a b. netloc p = a @ ''www.'' @ b \<and> a @ b \<noteq> []
                  \<and> \<not> str_contains a ''www.'' \<and> \<not> str_contains b ''www.''
            \<longrightarrow> normalize_url lib url = Inr (scheme p @ ''://'' @ a @ b @ path p))"
proof (intro conjI allI impI)
  assume a: "netloc p \<noteq> [] \<and> \<not> str_contains (netloc p) ''www.''"
  then have r: "str_replace ''www.'' [] (netloc p) = netloc p" by (simp add: str_replace_absent)
  with a have "str_replace ''www.'' [] (netloc p) \<noteq> []" by simp
  from normalize_url_result[OF assms this]
  show "normalize_url lib url = Inr (scheme p @ ''://'' @ netloc p @ path p)" unfolding r .
next
  fix a b
  assume a: "netloc p = a @ ''www.'' @ b \<and> a @ b \<noteq> []
               \<and> \<not> str_contains a ''www.'' \<and> \<not> str_contains b ''www.''"
  then have r: "str_replace ''www.'' [] (netloc p) = a @ b" using str_replace_once[of a b] by simp
  with a have "str_replace ''www.'' [] (netloc p) \<noteq> []" by simp
  from normalize_url_result[OF assms this]
  show "normalize_url lib url = Inr (scheme p @ ''://'' @ a @ b @ path p)" unfolding r by simp
qed

theorem normalize_url_host_witness:
  "normalize_url ex_lib ''https://docs.www.example.com/x'' = Inr ''https://docs.example.com/x''
   \<and> normalize_url ex_lib ''example.org/b'' = Inr ''http://example.org/b''"
proof -
  define q where "q = \<lparr>scheme = ''http'', netloc = ''example.org'', path = ''/b'',
             params = '''', query = '''', fragment = ''''\<rparr>"
  define p where "p = \<lparr>scheme = ''https'', netloc = ''docs.www.example.com'', path = ''/x'',
             params = '''', query = '''', fragment = ''''\<rparr>"
  have h1: "urlparse ex_lib (if \<not> str_contains ''https://docs.www.example.com/x'' ''://''
                    then ''http://'' @ ''https://docs.www.example.com/x''
                    else ''https://docs.www.example.com/x'') = Inr p"
    unfolding p_def by (rule ex_parse_inner)
  have h2: "scheme p \<noteq> []" by (simp add: p_def)
  have h3: "netloc p = ''docs.'' @ ''www.'' @ ''example.com'' \<and> ''docs.'' @ ''example.com'' \<noteq> []
              \<and> \<not> str_contains ''docs.'' ''www.'' \<and> \<not> str_contains ''example.com'' ''www.''"
    by (simp add: p_def)
  from normalize_url_host[OF h1 h2] h3
  have "normalize_url ex_lib ''https://docs.www.example.com/x''
          = Inr (scheme p @ ''://'' @ ''docs.'' @ ''example.com'' @ path p)"
    by blast
  then have first: "normalize_url ex_lib ''https://docs.www.example.com/x''
                      = Inr ''https://docs.example.com/x''"
    by (simp add: p_def)
  have g1: "urlparse ex_lib (if \<not> str_contains ''example.org/b'' ''://''
                    then ''http://'' @ ''example.org/b'' else ''example.org/b'') = Inr q"
    unfolding q_def by (rule ex_parse_plain)
  have g2: "scheme q \<noteq> []" by (simp add: q_def)
  have g3: "netloc q \<noteq> [] \<and> \<not> str_contains (netloc q) ''www.''" by (simp add: q_def)
  from normalize_url_host[OF g1 g2] g3
  have "normalize_url ex_lib ''example.org/b'' = Inr (scheme q @ ''://'' @ netloc q @ path q)"
    by blast
  then have second: "normalize_url ex_lib ''example.org/b'' = Inr ''http://example.org/b''"
    by (simp add: q_def)
  from first second show ?thesis by (rule conjI)
qed

end
